theory Spec2Isabelle
  imports Complex_Main "HOL-Library.Sublist"
begin

section \<open>Strings and numbers of the host language\<close>

text \<open>
  A string of the program is a sequence of UTF-16 code units; a code unit is modelled by
  its number (0 to 65535). \<open>ascii\<close> embeds an ASCII literal. Numbers that count things
  (attempts, HTTP status codes) are naturals, delays are integers (milliseconds), and
  the amounts handled by the formatter are the numbers of the platform, IEEE 754
  binary64 with its rounding, its two zeros, its infinities and NaN; they are defined
  with the formatter.
\<close>

type_synonym code_unit = nat
type_synonym jsstring = "code_unit list"

definition ascii :: "string \<Rightarrow> jsstring" where
  "ascii s = map of_char s"

text \<open>
  \<open>String.prototype.trim\<close> removes white space and line terminators at both ends:
  TAB, LF, VT, FF, CR, SPACE, NBSP, the Unicode space separators, LS, PS and the
  byte order mark.
\<close>

definition isWhiteSpace :: "code_unit \<Rightarrow> bool" where
  "isWhiteSpace c = (c \<in> {0x09, 0x0A, 0x0B, 0x0C, 0x0D, 0x20, 0xA0, 0x1680,
      0x2000, 0x2001, 0x2002, 0x2003, 0x2004, 0x2005, 0x2006, 0x2007, 0x2008, 0x2009,
      0x200A, 0x2028, 0x2029, 0x202F, 0x205F, 0x3000, 0xFEFF})"

definition trim :: "jsstring \<Rightarrow> jsstring" where
  "trim s = rev (dropWhile isWhiteSpace (rev (dropWhile isWhiteSpace s)))"

text \<open>
  The decimal digits of a natural number, most significant first: what a template
  literal prints for a non-negative integer (below \<open>10^21\<close>, where the host language
  switches to exponent notation).
\<close>

definition digit_char :: "nat \<Rightarrow> code_unit" where
  "digit_char d = 0x30 + d"

fun digits :: "nat \<Rightarrow> jsstring" where
  "digits n = (if n < 10 then [digit_char n] else digits (n div 10) @ [digit_char (n mod 10)])"

declare digits.simps [simp del]

section \<open>The API service (src/services/api.ts)\<close>

subsection \<open>Message literals\<close>

text \<open>
  The user-facing messages of the service are Chinese; each literal is given by its code
  units, with the ASCII runs spelled out.
\<close>

definition msg_stats_status :: jsstring where
  "msg_stats_status = ascii ''API '' @ [0x8BF7, 0x6C42, 0x5931, 0x8D25, 0xFF0C, 0x72B6, 0x6001, 0x7801, 0xFF1A]"

definition msg_stats_invalid :: jsstring where
  "msg_stats_invalid = ascii ''API '' @ [0x8FD4, 0x56DE, 0x6570, 0x636E, 0x65E0, 0x6548, 0x6216, 0x8BF7, 0x6C42, 0x5931, 0x8D25]"

definition msg_stats_server :: jsstring where
  "msg_stats_server = ascii ''API '' @ [0x8BF7, 0x6C42, 0x5931, 0x8D25, 0xFF1A, 0x670D, 0x52A1, 0x5668, 0x8FD4, 0x56DE] @ ascii '' ''"

definition msg_server_suffix :: jsstring where
  "msg_server_suffix = ascii '' '' @ [0x9519, 0x8BEF]"

definition msg_network :: jsstring where
  "msg_network = [0x65E0, 0x6CD5, 0x8FDE, 0x63A5, 0x5230, 0x670D, 0x52A1, 0x5668, 0xFF0C, 0x8BF7, 0x68C0, 0x67E5, 0x7F51, 0x7EDC, 0x8FDE, 0x63A5, 0x548C] @ ascii '' API '' @ [0x5730, 0x5740]"

definition msg_setup :: jsstring where
  "msg_setup = [0x8BF7, 0x6C42, 0x914D, 0x7F6E, 0x9519, 0x8BEF, 0xFF1A]"

definition msg_key_status :: jsstring where
  "msg_key_status = ascii ''API Key '' @ [0x8F6C, 0x6362, 0x8BF7, 0x6C42, 0x5931, 0x8D25, 0xFF0C, 0x72B6, 0x6001, 0x7801, 0xFF1A]"

definition msg_key_invalid :: jsstring where
  "msg_key_invalid = ascii ''API Key '' @ [0x8F6C, 0x6362, 0x5931, 0x8D25, 0x6216, 0x8FD4, 0x56DE, 0x6570, 0x636E, 0x65E0, 0x6548]"

definition msg_key_server :: jsstring where
  "msg_key_server = ascii ''API Key '' @ [0x8F6C, 0x6362, 0x5931, 0x8D25, 0xFF1A, 0x670D, 0x52A1, 0x5668, 0x8FD4, 0x56DE] @ ascii '' ''"

definition msg_retry_prefix :: jsstring where
  "msg_retry_prefix = ascii ''API '' @ [0x8BF7, 0x6C42, 0x5931, 0x8D25, 0xFF0C, 0x5DF2, 0x91CD, 0x8BD5] @ ascii '' ''"

definition msg_retry_middle :: jsstring where
  "msg_retry_middle = ascii '' '' @ [0x6B21, 0x3002, 0x6700, 0x540E, 0x9519, 0x8BEF, 0xFF1A]"

definition msg_v_both :: jsstring where
  "msg_v_both = ascii ''API URL '' @ [0x548C] @ ascii '' API ID/Key '' @ [0x90FD, 0x672A, 0x914D, 0x7F6E, 0xFF0C, 0x8BF7, 0x5728, 0x8BBE, 0x7F6E, 0x4E2D, 0x914D, 0x7F6E]"

definition msg_v_url_empty :: jsstring where
  "msg_v_url_empty = ascii ''API URL '' @ [0x4E0D, 0x80FD, 0x4E3A, 0x7A7A, 0xFF0C, 0x8BF7, 0x5728, 0x8BBE, 0x7F6E, 0x4E2D, 0x914D, 0x7F6E]"

definition msg_v_url_http :: jsstring where
  "msg_v_url_http = ascii ''API URL '' @ [0x5FC5, 0x987B, 0x662F, 0x6709, 0x6548, 0x7684] @ ascii '' HTTP '' @ [0x6216] @ ascii '' HTTPS '' @ [0x5730, 0x5740]"

definition msg_v_url_format :: jsstring where
  "msg_v_url_format = ascii ''API URL '' @ [0x683C, 0x5F0F, 0x65E0, 0x6548]"

definition msg_v_id_missing :: jsstring where
  "msg_v_id_missing = ascii ''API ID '' @ [0x6216] @ ascii '' API Key '' @ [0x81F3, 0x5C11, 0x9700, 0x8981, 0x914D, 0x7F6E, 0x4E00, 0x4E2A, 0xFF0C, 0x8BF7, 0x5728, 0x8BBE, 0x7F6E, 0x4E2D, 0x914D, 0x7F6E]"

definition msg_v_id_format :: jsstring where
  "msg_v_id_format = ascii ''API ID '' @ [0x683C, 0x5F0F, 0x65E0, 0x6548, 0xFF0C, 0x5E94, 0x4E3A] @ ascii '' UUID '' @ [0x683C, 0x5F0F, 0xFF08, 0x4F8B, 0x5982, 0xFF1A] @ ascii ''34arr92a-cb42-58op-56op-ggy15rt9878c'' @ [0xFF09]"

subsection \<open>HTTP requests and their outcomes\<close>

text \<open>
  Both endpoints are reached with \<open>axios.post\<close>. The network is not part of the program:
  the outcome of a call is an input of the model. A call either resolves with a status
  and a body (\<open>None\<close> for an absent body), or rejects with an axios error, which may carry
  a response status, a request object and a message, or rejects with some other error.
\<close>

datatype body = ApiIdBody jsstring | ApiKeyBody jsstring

datatype 'd axios_outcome =
    Resolved nat "'d option"
  | AxiosError "nat option" bool jsstring
  | OtherError jsstring

text \<open>The body of the statistics endpoint: the \<open>success\<close> flag and the user data.\<close>

datatype 'p stats_body = StatsBody bool 'p

text \<open>The body of the key endpoint: the \<open>success\<close> flag and \<open>data?.id\<close>.\<close>

datatype key_body = KeyBody bool "jsstring option"

definition stats_url :: "jsstring \<Rightarrow> jsstring" where
  "stats_url apiUrl = apiUrl @ ascii ''/apiStats/api/user-stats''"

definition key_url :: "jsstring \<Rightarrow> jsstring" where
  "key_url apiUrl = apiUrl @ ascii ''/apiStats/api/get-key-id''"

text \<open>
  The observable effects of the poller, in the order in which they happen: requests, timed waits and the calls into the status bar. Log lines go to an
  output channel and are not part of this trace.
\<close>

datatype missing = MissingApiUrl | MissingApiId | MissingBoth

datatype 'p effect =
    Post jsstring body
  | Sleep int
  | ShowConfigPrompt "missing option"
  | ShowLoadingStatus
  | UpdateStatusBar "'p stats_body" jsstring jsstring
  | ShowErrorStatus jsstring
  | ShowErrorMessage jsstring

text \<open>
  \<open>fetchRelayStats\<close>: one POST of the identifier, whose outcome is \<open>outcome\<close>. The result
  is the body, or the message of the error that the function throws, together with the
  request that was made.
\<close>

definition fetchRelayStats ::
  "jsstring \<Rightarrow> jsstring \<Rightarrow> 'p stats_body axios_outcome \<Rightarrow> (jsstring + 'p stats_body) \<times> 'p effect list" where
  "fetchRelayStats apiUrl apiId outcome =
     ((case outcome of
        Resolved status data \<Rightarrow>
          if status \<noteq> 200 then Inl (msg_stats_status @ digits status)
          else (case data of
                  None \<Rightarrow> Inl msg_stats_invalid
                | Some (StatsBody success d) \<Rightarrow>
                    if \<not> success then Inl msg_stats_invalid else Inr (StatsBody success d))
      | AxiosError response request message \<Rightarrow>
          (case response of
             Some status \<Rightarrow> Inl (msg_stats_server @ digits status @ msg_server_suffix)
           | None \<Rightarrow> if request then Inl msg_network else Inl (msg_setup @ message))
      | OtherError message \<Rightarrow> Inl message),
      [Post (stats_url apiUrl) (ApiIdBody apiId)])"

text \<open>
  \<open>getApiIdFromKey\<close>: one POST of the key; the result is the identifier or the message of
  the error thrown. A body without a non-empty \<open>data.id\<close> is an error.
\<close>

definition getApiIdFromKey ::
  "jsstring \<Rightarrow> jsstring \<Rightarrow> key_body axios_outcome \<Rightarrow> (jsstring + jsstring) \<times> 'p effect list" where
  "getApiIdFromKey apiUrl apiKey outcome =
     ((case outcome of
        Resolved status data \<Rightarrow>
          if status \<noteq> 200 then Inl (msg_key_status @ digits status)
          else (case data of
                  None \<Rightarrow> Inl msg_key_invalid
                | Some (KeyBody success ido) \<Rightarrow>
                    if \<not> success then Inl msg_key_invalid
                    else (case ido of
                            None \<Rightarrow> Inl msg_key_invalid
                          | Some i \<Rightarrow> if i = [] then Inl msg_key_invalid else Inr i))
      | AxiosError response request message \<Rightarrow>
          (case response of
             Some status \<Rightarrow> Inl (msg_key_server @ digits status @ msg_server_suffix)
           | None \<Rightarrow> if request then Inl msg_network else Inl (msg_setup @ message))
      | OtherError message \<Rightarrow> Inl message),
      [Post (key_url apiUrl) (ApiKeyBody apiKey)])"

subsection \<open>The retry loop\<close>

text \<open>
  The message of the error thrown after the last attempt. \<open>lastError\<close> is undefined when
  the loop body never ran, and the template then prints \<open>undefined\<close>.
\<close>

definition retry_message :: "nat \<Rightarrow> jsstring option \<Rightarrow> jsstring" where
  "retry_message maxRetries lastError =
     msg_retry_prefix @ digits maxRetries @ msg_retry_middle @
     (case lastError of None \<Rightarrow> ascii ''undefined'' | Some m \<Rightarrow> m)"

text \<open>
  The \<open>for\<close> loop of \<open>fetchRelayStatsWithRetry\<close>, from the state it has at the loop test:
  the attempt counter, the current delay, the last error and the effects so far.
  \<open>net k\<close> is the outcome of the request of attempt \<open>k\<close>. A successful attempt returns at
  once; a failed one waits and doubles the delay unless it was the last.
\<close>

function retry_loop ::
  "(nat \<Rightarrow> 'p stats_body axios_outcome) \<Rightarrow> jsstring \<Rightarrow> jsstring \<Rightarrow> nat \<Rightarrow>
   nat \<Rightarrow> int \<Rightarrow> jsstring option \<Rightarrow> 'p effect list \<Rightarrow>
   (jsstring + 'p stats_body) \<times> 'p effect list" where
  "retry_loop net apiUrl apiId maxRetries attempt retryDelay lastError tr =
     (if attempt \<le> maxRetries then
        (case fetchRelayStats apiUrl apiId (net attempt) of
           (Inr data, ev) \<Rightarrow> (Inr data, tr @ ev)
         | (Inl err, ev) \<Rightarrow>
             if attempt < maxRetries then
               retry_loop net apiUrl apiId maxRetries (attempt + 1) (retryDelay * 2) (Some err)
                 (tr @ ev @ [Sleep retryDelay])
             else
               retry_loop net apiUrl apiId maxRetries (attempt + 1) retryDelay (Some err)
                 (tr @ ev))
      else (Inl (retry_message maxRetries lastError), tr))"
  by pat_completeness auto
termination
  by (relation "measure (\<lambda>(net, apiUrl, apiId, maxRetries, attempt, retryDelay, lastError, tr).
        maxRetries + 1 - attempt)") auto

declare retry_loop.simps [simp del]

definition fetchRelayStatsWithRetry ::
  "(nat \<Rightarrow> 'p stats_body axios_outcome) \<Rightarrow> jsstring \<Rightarrow> jsstring \<Rightarrow> nat \<Rightarrow> int \<Rightarrow>
   (jsstring + 'p stats_body) \<times> 'p effect list" where
  "fetchRelayStatsWithRetry net apiUrl apiId maxRetries retryDelay =
     retry_loop net apiUrl apiId maxRetries 1 retryDelay None []"

subsection \<open>Validation of the configuration\<close>

text \<open>
  The pattern \<open>/^[0-9a-f]{8}-[0-9a-f]{4}-[0-9a-f]{4}-[0-9a-f]{4}-[0-9a-f]{12}$/i\<close>:
  \<open>hexRun n\<close> consumes exactly \<open>n\<close> hexadecimal digits of either case, \<open>dash\<close> one hyphen,
  and nothing may remain at the end.
\<close>

definition isHexDigit :: "code_unit \<Rightarrow> bool" where
  "isHexDigit c = ((0x30 \<le> c \<and> c \<le> 0x39) \<or> (0x61 \<le> c \<and> c \<le> 0x66) \<or> (0x41 \<le> c \<and> c \<le> 0x46))"

fun hexRun :: "nat \<Rightarrow> jsstring \<Rightarrow> jsstring option" where
  "hexRun 0 s = Some s"
| "hexRun (Suc n) [] = None"
| "hexRun (Suc n) (c # s) = (if isHexDigit c then hexRun n s else None)"

fun dash :: "jsstring \<Rightarrow> jsstring option" where
  "dash [] = None"
| "dash (c # s) = (if c = 0x2D then Some s else None)"

definition uuidRegex_test :: "jsstring \<Rightarrow> bool" where
  "uuidRegex_test s =
     (Option.bind (Option.bind (Option.bind (Option.bind (Option.bind (Option.bind (Option.bind
        (Option.bind (hexRun 8 s) dash) (hexRun 4)) dash) (hexRun 4)) dash) (hexRun 4)) dash)
        (hexRun 12) = Some [])"

definition startsWith :: "jsstring \<Rightarrow> jsstring \<Rightarrow> bool" where
  "startsWith s p = (take (length p) s = p)"

record validation =
  valid :: bool
  message :: "jsstring option"
  missingConfig :: "missing option"

text \<open>
  \<open>validateApiConfig\<close>. The constructor \<open>new URL\<close> belongs to the platform and is a
  parameter: \<open>URL_protocol u\<close> is \<open>None\<close> when the constructor throws on \<open>u\<close>, and
  otherwise the \<open>protocol\<close> property of the parsed URL (the scheme followed by a colon).
  The optional \<open>apiKey\<close> is \<open>None\<close> when it is not passed.
\<close>

definition validateApiConfig ::
  "(jsstring \<Rightarrow> jsstring option) \<Rightarrow> jsstring \<Rightarrow> jsstring \<Rightarrow> jsstring option \<Rightarrow> validation" where
  "validateApiConfig URL_protocol apiUrl apiId apiKey =
     (let urlMissing = (apiUrl = [] \<or> trim apiUrl = []);
          idMissing = (apiId = [] \<or> trim apiId = []);
          keyMissing = (case apiKey of None \<Rightarrow> True | Some k \<Rightarrow> k = [] \<or> trim k = [])
      in if urlMissing then
           (if idMissing \<and> keyMissing then
              \<lparr>valid = False, message = Some msg_v_both, missingConfig = Some MissingBoth\<rparr>
            else
              \<lparr>valid = False, message = Some msg_v_url_empty, missingConfig = Some MissingApiUrl\<rparr>)
         else
           (case URL_protocol apiUrl of
              None \<Rightarrow>
                \<lparr>valid = False, message = Some msg_v_url_format, missingConfig = Some MissingApiUrl\<rparr>
            | Some protocol \<Rightarrow>
                if \<not> startsWith protocol (ascii ''http'') then
                  \<lparr>valid = False, message = Some msg_v_url_http, missingConfig = Some MissingApiUrl\<rparr>
                else if idMissing \<and> keyMissing then
                  \<lparr>valid = False, message = Some msg_v_id_missing, missingConfig = Some MissingApiId\<rparr>
                else if \<not> idMissing \<and> \<not> uuidRegex_test apiId then
                  \<lparr>valid = False, message = Some msg_v_id_format, missingConfig = Some MissingApiId\<rparr>
                else
                  \<lparr>valid = True, message = None, missingConfig = None\<rparr>))"

section \<open>The refresh cycle (updateStats of the extension entry point)\<close>

definition msg_resolve_failed :: jsstring where
  "msg_resolve_failed = [0x65E0, 0x6CD5, 0x901A, 0x8FC7] @ ascii '' API Key '' @ [0x83B7, 0x53D6] @ ascii '' API ID'' @ [0xFF1A]"

definition msg_fetch_failed :: jsstring where
  "msg_fetch_failed = [0x83B7, 0x53D6, 0x6570, 0x636E, 0x5931, 0x8D25]"

definition msg_fetch_failed_prefix :: jsstring where
  "msg_fetch_failed_prefix = ascii ''Claude Relay Meter: '' @ [0x83B7, 0x53D6, 0x6570, 0x636E, 0x5931, 0x8D25] @ ascii '' - ''"

text \<open>The three settings that \<open>getConfiguration\<close> reads and \<open>updateStats\<close> uses.\<close>

record StatusBarConfig =
  apiUrl :: jsstring
  apiId :: jsstring
  apiKey :: jsstring

text \<open>The \<open>catch\<close> block of \<open>updateStats\<close>: the error status and the error message.\<close>

definition updateStats_catch :: "jsstring \<Rightarrow> 'p effect list" where
  "updateStats_catch err =
     [ShowErrorStatus msg_fetch_failed, ShowErrorMessage (msg_fetch_failed_prefix @ err)]"

text \<open>
  One refresh cycle. \<open>keyOutcome\<close> is the outcome of the request to the key endpoint, if
  the cycle makes it, and \<open>net k\<close> the outcome of the \<open>k\<close>-th request for statistics. The
  cycle ends with the status bar updated, with the configuration prompt, or with the
  error message; what the user then picks in that message starts another cycle and is
  not part of this one.
\<close>

definition updateStats ::
  "(jsstring \<Rightarrow> jsstring option) \<Rightarrow> StatusBarConfig \<Rightarrow> key_body axios_outcome \<Rightarrow>
   (nat \<Rightarrow> 'p stats_body axios_outcome) \<Rightarrow> 'p effect list" where
  "updateStats URL_protocol config keyOutcome net =
     (let validation =
            validateApiConfig URL_protocol (apiUrl config) (apiId config) (Some (apiKey config))
      in if \<not> valid validation then [ShowConfigPrompt (missingConfig validation)]
         else
           (case (if (apiId config = [] \<or> trim (apiId config) = []) \<and>
                     apiKey config \<noteq> [] \<and> trim (apiKey config) \<noteq> []
                  then getApiIdFromKey (apiUrl config) (apiKey config) keyOutcome
                  else (Inr (apiId config), [])) of
              (Inl err, tr) \<Rightarrow> tr @ updateStats_catch (msg_resolve_failed @ err)
            | (Inr actualApiId, tr) \<Rightarrow>
                (case fetchRelayStatsWithRetry net (apiUrl config) actualApiId 3 1000 of
                   (Inl err, tr') \<Rightarrow> tr @ [ShowLoadingStatus] @ tr' @ updateStats_catch err
                 | (Inr data, tr') \<Rightarrow>
                     tr @ [ShowLoadingStatus] @ tr' @
                     [UpdateStatusBar data (apiUrl config) actualApiId])))"

section \<open>The formatter (src/utils/formatter.ts)\<close>

text \<open>
  The numbers of the formatter and the operations on them belong to the platform, not to
  the program. The formatter is therefore written over a platform: a type of numbers
  with the literals, the arithmetic, the \<open>Math\<close> functions and the conversions between
  numbers and strings that the source uses.
\<close>

record 'n platform =
  numLit :: "nat \<Rightarrow> 'n"
  strictEq :: "'n \<Rightarrow> 'n \<Rightarrow> bool"
  numMul :: "'n \<Rightarrow> 'n \<Rightarrow> 'n"
  numDiv :: "'n \<Rightarrow> 'n \<Rightarrow> 'n"
  mathMax :: "'n \<Rightarrow> 'n \<Rightarrow> 'n"
  mathMin :: "'n \<Rightarrow> 'n \<Rightarrow> 'n"
  mathRound :: "'n \<Rightarrow> 'n"
  toFixed :: "'n \<Rightarrow> nat \<Rightarrow> jsstring"
  Number :: "jsstring \<Rightarrow> 'n"
  toString :: "'n \<Rightarrow> jsstring"
  parseFloat :: "jsstring \<Rightarrow> 'n"

definition formatNumber :: "'n platform \<Rightarrow> 'n \<Rightarrow> jsstring" where
  "formatNumber P num =
     (let rounded = numDiv P (mathRound P (numMul P num (numLit P 10000))) (numLit P 10000)
      in toString P (Number P (toFixed P rounded 4)))"

definition formatPercentage :: "'n platform \<Rightarrow> 'n \<Rightarrow> 'n \<Rightarrow> jsstring" where
  "formatPercentage P val tot =
     (if strictEq P tot (numLit P 0) then ascii ''0''
      else
        (let percentage = numMul P (numDiv P val tot) (numLit P 100);
             clamped = mathMax P (numLit P 0) (mathMin P (numLit P 100) percentage);
             rounded = numDiv P (mathRound P (numMul P clamped (numLit P 100))) (numLit P 100)
         in toString P (Number P (toFixed P rounded 2))))"

definition formatCost :: "'n platform \<Rightarrow> 'n \<Rightarrow> jsstring" where
  "formatCost P amount = ascii ''$'' @ formatNumber P amount"

text \<open>
  \<open>formatStatusBarText\<close>. The optional argument is \<open>None\<close> when it is undefined. The local
  \<open>percentValue\<close> is computed as in the source; the returned text does not mention it.
\<close>

definition formatStatusBarText :: "'n platform \<Rightarrow> 'n \<Rightarrow> 'n \<Rightarrow> 'n option \<Rightarrow> jsstring" where
  "formatStatusBarText P used limit percentage =
     (let formattedUsed = formatCost P used;
          formattedLimit = formatCost P limit;
          percentValue = (case percentage of
                            Some p \<Rightarrow> p
                          | None \<Rightarrow> parseFloat P (formatPercentage P used limit));
          formattedPercent = formatPercentage P used limit
      in formattedUsed @ ascii ''/'' @ formattedLimit @ ascii '' '' @ formattedPercent @ ascii ''%'')"

subsection \<open>The numbers of the platform: IEEE 754 binary64\<close>

text \<open>
  A number is finite, infinite or not a number. A finite number is a sign and a
  magnitude, so that the two zeros are distinct; the magnitude of a number that the
  platform can hold is a multiple of the quantum of its binade with at most 53
  significant bits. \<open>True\<close> is the negative sign.
\<close>

datatype double = Fin bool real | Infty bool | NaN

text \<open>
  \<open>floor_log b x\<close> is the integer \<open>e\<close> with \<open>b^e \<le> x < b^(e + 1)\<close>, for a base of at
  least two and a positive \<open>x\<close>, found by repeated division or multiplication.
\<close>

function ilog_up :: "nat \<Rightarrow> real \<Rightarrow> nat" where
  "ilog_up b x = (if b < 2 \<or> x < real b then 0 else Suc (ilog_up b (x / real b)))"
  by pat_completeness auto
termination
proof (relation "measure (\<lambda>(b, x). nat \<lceil>x\<rceil>)")
  show "wf (measure (\<lambda>(b, x). nat \<lceil>x\<rceil>))" by simp
next
  fix b :: nat and x :: real
  assume "\<not> (b < 2 \<or> x < real b)"
  then have b: "2 \<le> real b" and x: "real b \<le> x" by simp_all
  then have "x / real b \<le> x / 2" by (intro divide_left_mono) auto
  also have "\<dots> \<le> x - 1" using b x by simp
  finally have "\<lceil>x / real b\<rceil> \<le> \<lceil>x - 1\<rceil>" by (rule ceiling_mono)
  moreover have "0 < \<lceil>x\<rceil>" using b x by (simp add: ceiling_less_iff less_ceiling_iff)
  ultimately show "((b, x / real b), (b, x)) \<in> measure (\<lambda>(b, x). nat \<lceil>x\<rceil>)" by simp
qed

function ilog_down :: "nat \<Rightarrow> real \<Rightarrow> nat" where
  "ilog_down b x = (if b < 2 \<or> x \<le> 0 \<or> 1 \<le> x then 0 else Suc (ilog_down b (x * real b)))"
  by pat_completeness auto
termination
proof (relation "measure (\<lambda>(b, x). nat \<lceil>1 / x\<rceil>)")
  show "wf (measure (\<lambda>(b, x). nat \<lceil>1 / x\<rceil>))" by simp
next
  fix b :: nat and x :: real
  assume "\<not> (b < 2 \<or> x \<le> 0 \<or> 1 \<le> x)"
  then have b: "2 \<le> real b" and x: "0 < x" "x < 1" by simp_all
  have y: "1 < 1 / x" using x by simp
  then have c: "2 \<le> \<lceil>1 / x\<rceil>" by linarith
  have "1 / (x * real b) \<le> (1 / x) / 2" using b x by (simp add: field_simps)
  also have "\<dots> \<le> real_of_int \<lceil>1 / x\<rceil> / 2" by (simp add: divide_right_mono)
  also have "\<dots> \<le> real_of_int (\<lceil>1 / x\<rceil> - 1)" using c by simp
  finally have "\<lceil>1 / (x * real b)\<rceil> \<le> \<lceil>1 / x\<rceil> - 1" by (simp only: ceiling_le_iff)
  with c have "nat \<lceil>1 / (x * real b)\<rceil> < nat \<lceil>1 / x\<rceil>" by linarith
  then show "((b, x * real b), (b, x)) \<in> measure (\<lambda>(b, x). nat \<lceil>1 / x\<rceil>)" by simp
qed

declare ilog_up.simps [simp del] ilog_down.simps [simp del]

definition floor_log :: "nat \<Rightarrow> real \<Rightarrow> int" where
  "floor_log b x = (if 1 \<le> x then int (ilog_up b x) else - int (ilog_down b x))"

text \<open>Rounding to the nearest integer, a tie to the even one.\<close>

definition round_half_even :: "real \<Rightarrow> int" where
  "round_half_even m =
     (let f = \<lfloor>m\<rfloor>
      in if m - of_int f < 1 / 2 then f
         else if 1 / 2 < m - of_int f then f + 1
         else if even f then f else f + 1)"

text \<open>
  Rounding a non-negative real to the nearest magnitude of binary64: the quantum is
  \<open>2^(e - 52)\<close> for the exponent \<open>e\<close> of the binade, which is at least \<open>-1022\<close>; a tie goes
  to the even multiple; a result of \<open>2^1024\<close> or more is an overflow, \<open>None\<close>.
\<close>

definition round_mag :: "real \<Rightarrow> real option" where
  "round_mag x =
     (if x = 0 then Some 0
      else
        (let e = max (floor_log 2 x) (- 1022);
             q = 2 powi (e - 52);
             r = of_int (round_half_even (x / q)) * q
         in if 2 ^ 1024 \<le> r then None else Some r))"

definition mk :: "bool \<Rightarrow> real \<Rightarrow> double" where
  "mk neg x = (case round_mag x of None \<Rightarrow> Infty neg | Some r \<Rightarrow> Fin neg r)"

definition f64_lit :: "nat \<Rightarrow> double" where
  "f64_lit n = mk False (real n)"

definition f64_strictEq :: "double \<Rightarrow> double \<Rightarrow> bool" where
  "f64_strictEq a b =
     (case (a, b) of
        (Fin s x, Fin t y) \<Rightarrow> (x = 0 \<and> y = 0) \<or> (s = t \<and> x = y)
      | (Infty s, Infty t) \<Rightarrow> s = t
      | _ \<Rightarrow> False)"

definition f64_mul :: "double \<Rightarrow> double \<Rightarrow> double" where
  "f64_mul a b =
     (case (a, b) of
        (NaN, _) \<Rightarrow> NaN
      | (_, NaN) \<Rightarrow> NaN
      | (Infty s, Infty t) \<Rightarrow> Infty (s \<noteq> t)
      | (Infty s, Fin t y) \<Rightarrow> if y = 0 then NaN else Infty (s \<noteq> t)
      | (Fin s x, Infty t) \<Rightarrow> if x = 0 then NaN else Infty (s \<noteq> t)
      | (Fin s x, Fin t y) \<Rightarrow> mk (s \<noteq> t) (x * y))"

definition f64_div :: "double \<Rightarrow> double \<Rightarrow> double" where
  "f64_div a b =
     (case (a, b) of
        (NaN, _) \<Rightarrow> NaN
      | (_, NaN) \<Rightarrow> NaN
      | (Infty s, Infty t) \<Rightarrow> NaN
      | (Infty s, Fin t y) \<Rightarrow> Infty (s \<noteq> t)
      | (Fin s x, Infty t) \<Rightarrow> Fin (s \<noteq> t) 0
      | (Fin s x, Fin t y) \<Rightarrow>
          if y = 0 then (if x = 0 then NaN else Infty (s \<noteq> t)) else mk (s \<noteq> t) (x / y))"

text \<open>
  The order that \<open>Math.max\<close> and \<open>Math.min\<close> use on numbers other than NaN: the order of
  the values, with the negative zero below the positive zero.
\<close>

definition f64_less :: "double \<Rightarrow> double \<Rightarrow> bool" where
  "f64_less a b =
     (case (a, b) of
        (Infty s, Infty t) \<Rightarrow> s \<and> \<not> t
      | (Infty s, _) \<Rightarrow> s
      | (_, Infty t) \<Rightarrow> \<not> t
      | (Fin s x, Fin t y) \<Rightarrow>
          (let u = (if s then - x else x); v = (if t then - y else y)
           in if u = v then s \<and> \<not> t else u < v)
      | _ \<Rightarrow> False)"

definition f64_max :: "double \<Rightarrow> double \<Rightarrow> double" where
  "f64_max a b = (if a = NaN \<or> b = NaN then NaN else if f64_less a b then b else a)"

definition f64_min :: "double \<Rightarrow> double \<Rightarrow> double" where
  "f64_min a b = (if a = NaN \<or> b = NaN then NaN else if f64_less b a then b else a)"

text \<open>
  \<open>Math.round\<close>: the nearest integer, a tie towards plus infinity; a result of zero keeps
  the sign of the argument.
\<close>

definition f64_round :: "double \<Rightarrow> double" where
  "f64_round a =
     (case a of
        Fin s x \<Rightarrow>
          (let r = \<lfloor>(if s then - x else x) + 1 / 2\<rfloor>
           in if r = 0 then Fin s 0 else Fin (r < 0) (of_int \<bar>r\<bar>))
      | _ \<Rightarrow> a)"

text \<open>
  \<open>Number::toString\<close> finds the decimal with the fewest significant digits that rounds
  to the number, and the nearest such decimal when there are two. With \<open>k\<close> digits the
  only candidates are the two neighbours \<open>lo * 10^E\<close> and \<open>(lo + 1) * 10^E\<close> of the number
  on the grid of step \<open>10^E\<close>. Seventeen digits always suffice.
\<close>

fun shortest_in :: "real \<Rightarrow> int \<Rightarrow> nat list \<Rightarrow> nat \<times> int" where
  "shortest_in x n [] = (nat \<lfloor>x / 10 powi (n - 17)\<rfloor>, n - 17)"
| "shortest_in x n (k # ks) =
     (let E = n - int k;
          lo = nat \<lfloor>x / 10 powi E\<rfloor>;
          hi = lo + 1;
          oklo = (0 < lo \<and> round_mag (real lo * 10 powi E) = Some x);
          okhi = (round_mag (real hi * 10 powi E) = Some x)
      in if oklo \<and> okhi then
           (if x - real lo * 10 powi E < real hi * 10 powi E - x then (lo, E)
            else if real hi * 10 powi E - x < x - real lo * 10 powi E then (hi, E)
            else if even lo then (lo, E) else (hi, E))
         else if oklo then (lo, E)
         else if okhi then (hi, E)
         else shortest_in x n ks)"

definition shortest :: "real \<Rightarrow> nat \<times> int" where
  "shortest x =
     shortest_in x (floor_log 10 x + 1) [1, 2, 3, 4, 5, 6, 7, 8, 9, 10, 11, 12, 13, 14, 15, 16, 17]"

text \<open>
  Printing the decimal \<open>S * 10^E\<close>: with the zeros at the end of \<open>S\<close> removed, \<open>k\<close> digits
  remain and the decimal point stands after the \<open>n\<close>-th of them. The number is written
  in full when \<open>-6 < n \<le> 21\<close> and in exponent notation otherwise.
\<close>

definition print_decimal :: "nat \<Rightarrow> int \<Rightarrow> jsstring" where
  "print_decimal S E =
     (let ds = rev (dropWhile (\<lambda>c. c = 0x30) (rev (digits S)));
          k = length ds;
          n = int (length (digits S)) + E
      in if int k \<le> n \<and> n \<le> 21 then ds @ replicate (nat (n - int k)) 0x30
         else if 0 < n \<and> n \<le> 21 then take (nat n) ds @ ascii ''.'' @ drop (nat n) ds
         else if - 6 < n \<and> n \<le> 0 then ascii ''0.'' @ replicate (nat (- n)) 0x30 @ ds
         else
           (if k = 1 then ds else take 1 ds @ ascii ''.'' @ drop 1 ds) @ ascii ''e'' @
           (if 0 \<le> n - 1 then ascii ''+'' else ascii ''-'') @ digits (nat \<bar>n - 1\<bar>))"

definition f64_toString :: "double \<Rightarrow> jsstring" where
  "f64_toString a =
     (case a of
        NaN \<Rightarrow> ascii ''NaN''
      | Infty s \<Rightarrow> (if s then ascii ''-Infinity'' else ascii ''Infinity'')
      | Fin s x \<Rightarrow>
          if x = 0 then ascii ''0''
          else (if s then ascii ''-'' else []) @ (case shortest x of (S, E) \<Rightarrow> print_decimal S E))"

text \<open>
  \<open>Number.prototype.toFixed\<close> with \<open>f\<close> fraction digits: a number of magnitude \<open>10^21\<close> or
  more, and NaN, are printed as \<open>toString\<close> prints them. Otherwise the sign is split off,
  \<open>n\<close> is the integer nearest to the magnitude times \<open>10^f\<close> (the larger one on a tie), and
  its digits, padded with zeros to at least \<open>f + 1\<close>, are cut before the last \<open>f\<close>.
\<close>

definition f64_toFixed :: "double \<Rightarrow> nat \<Rightarrow> jsstring" where
  "f64_toFixed a f =
     (case a of
        Fin s x \<Rightarrow>
          if 10 ^ 21 \<le> x then f64_toString a
          else
            (let n = nat \<lfloor>x * 10 ^ f + 1 / 2\<rfloor>;
                 m = replicate (Suc f - length (digits n)) 0x30 @ digits n;
                 a = take (length m - f) m;
                 b = drop (length m - f) m
             in (if s \<and> 0 < x then ascii ''-'' else []) @ (if f = 0 then a else a @ ascii ''.'' @ b))
      | _ \<Rightarrow> f64_toString a)"

text \<open>
  The number that a decimal numeral denotes: an optional minus sign, digits, and
  optionally a point and more digits. Any other string denotes no number.
\<close>

definition isDigit :: "code_unit \<Rightarrow> bool" where
  "isDigit c = (0x30 \<le> c \<and> c \<le> 0x39)"

definition digits_value :: "jsstring \<Rightarrow> nat" where
  "digits_value s = foldl (\<lambda>v c. 10 * v + (c - 0x30)) 0 s"

definition unsigned_value :: "jsstring \<Rightarrow> real option" where
  "unsigned_value s =
     (let a = takeWhile (\<lambda>c. c \<noteq> 0x2E) s;
          r = dropWhile (\<lambda>c. c \<noteq> 0x2E) s;
          b = drop 1 r
      in if a = [] then None
         else if \<not> list_all isDigit a then None
         else if r = [] then Some (real (digits_value a))
         else if b = [] then None
         else if \<not> list_all isDigit b then None
         else Some (real (digits_value a) + real (digits_value b) / 10 ^ length b))"

definition decimal_value :: "jsstring \<Rightarrow> real option" where
  "decimal_value s =
     (if take 1 s = ascii ''-'' then map_option uminus (unsigned_value (drop 1 s))
      else unsigned_value s)"

text \<open>
  The exponent part of a numeral in exponent notation: a sign and digits.
\<close>

definition exponent_value :: "jsstring \<Rightarrow> int option" where
  "exponent_value s =
     (if drop 1 s = [] then None
      else if \<not> list_all isDigit (drop 1 s) then None
      else if take 1 s = ascii ''+'' then Some (int (digits_value (drop 1 s)))
      else if take 1 s = ascii ''-'' then Some (- int (digits_value (drop 1 s)))
      else None)"

text \<open>
  \<open>Number(s)\<close> on the strings that \<open>toFixed\<close> returns, which are the only ones the
  formatter converts: \<open>Infinity\<close> with its sign, and a numeral with an optional sign and
  an optional exponent part, which becomes the nearest number. Every other string, the
  string \<open>NaN\<close> among them, becomes NaN. \<open>parseFloat\<close> agrees with it on these strings.
\<close>

definition f64_Number :: "jsstring \<Rightarrow> double" where
  "f64_Number s =
     (if s = ascii ''Infinity'' then Infty False
      else if s = ascii ''-Infinity'' then Infty True
      else
        (let neg = (take 1 s = ascii ''-'');
             magnitude = (if neg then drop 1 s else s);
             mantissa = takeWhile (\<lambda>c. c \<noteq> 0x65) magnitude;
             rest = dropWhile (\<lambda>c. c \<noteq> 0x65) magnitude
         in case unsigned_value mantissa of
              None \<Rightarrow> NaN
            | Some v \<Rightarrow>
                if rest = [] then mk neg v
                else (case exponent_value (drop 1 rest) of
                        None \<Rightarrow> NaN
                      | Some e \<Rightarrow> mk neg (v * 10 powi e))))"

definition binary64 :: "double platform" where
  "binary64 =
     \<lparr>numLit = f64_lit, strictEq = f64_strictEq, numMul = f64_mul, numDiv = f64_div,
      mathMax = f64_max, mathMin = f64_min, mathRound = f64_round, toFixed = f64_toFixed,
      Number = f64_Number, toString = f64_toString, parseFloat = f64_Number\<rparr>"

section \<open>The settings watcher (claudeSettingsWatcher)\<close>

text \<open>
  The module state of the watcher, together with the two settings of the host that it
  reads and writes through \<open>ConfigManager\<close>, and what it has logged and shown so far.
\<close>

datatype Config = Config (cfgApiKey: jsstring) (cfgApiUrl: jsstring)

text \<open>What \<open>readClaudeSettings\<close> returns: either field may be absent.\<close>

datatype ClaudeSettings = ClaudeSettings (csApiKey: "jsstring option") (csApiUrl: "jsstring option")

text \<open>A thrown value is an instance of \<open>Error\<close> with a message, or something else.\<close>

datatype thrown = Error jsstring | NonError

datatype choice = UseNewConfig | KeepCurrentConfig | OpenSettings

datatype log_line =
    LogCheckStart
  | LogNoValidConfig
  | LogSameConfig
  | LogConfigChanged
  | LogCheckFailed jsstring
  | LogChoiceUseNew
  | LogChoiceKeepAndStopWatching
  | LogChoiceOpenSettings
  | LogApplied
  | LogApplyFailed jsstring
  | LogWatcherStopped
  | LogWatchingDisabled
  | LogDisableFailed jsstring

datatype shown =
    Log log_line
  | ChoicePrompt Config "Config option"
  | InfoConfigUpdated
  | InfoWatchingDisabled
  | ErrorApplyFailed jsstring
  | ExecuteOpenSettings
  | RefreshCallback

record watcher =
  fileWatcher :: bool
  debounceTimer :: bool
  refreshCallback :: bool
  watchEnabled :: bool
  vscodeConfig :: "Config option"
  trace :: "shown list"

text \<open>
  What the surroundings answer during one check: the result of reading the credentials
  file, the button picked in the prompt (\<open>None\<close> when the prompt is dismissed), and
  whether the two writes of settings throw.
\<close>

record host =
  readClaudeSettings :: "thrown + ClaudeSettings"
  userChoice :: "choice option"
  setWatchEnabled_throws :: "thrown option"
  updateVSCodeConfig_throws :: "thrown option"

definition emit :: "shown list \<Rightarrow> watcher \<Rightarrow> watcher" where
  "emit xs w = w\<lparr>trace := trace w @ xs\<rparr>"

text \<open>
  Modelled from the spec: \<open>ConfigManager.compareConfigs\<close>, whose source is not part of
  the files at hand. The two configurations are compared field by field for string
  equality; no current configuration differs from every new one.
\<close>

definition compareConfigs :: "Config \<Rightarrow> Config option \<Rightarrow> bool" where
  "compareConfigs newConfig currentConfig =
     (case currentConfig of
        None \<Rightarrow> False
      | Some c \<Rightarrow> cfgApiKey newConfig = cfgApiKey c \<and> cfgApiUrl newConfig = cfgApiUrl c)"

text \<open>
  Modelled from the spec: \<open>ConfigManager.setWatchEnabled\<close> and
  \<open>ConfigManager.updateVSCodeConfig\<close>, whose sources are not part of the files at hand.
  The first writes the persisted flag, the second writes the new credentials into the
  active settings; either may throw, and then writes nothing.
\<close>

definition setWatchEnabled :: "host \<Rightarrow> bool \<Rightarrow> watcher \<Rightarrow> thrown + watcher" where
  "setWatchEnabled h enabled w =
     (case setWatchEnabled_throws h of
        Some t \<Rightarrow> Inl t
      | None \<Rightarrow> Inr (w\<lparr>watchEnabled := enabled\<rparr>))"

definition updateVSCodeConfig :: "host \<Rightarrow> jsstring \<Rightarrow> jsstring \<Rightarrow> watcher \<Rightarrow> thrown + watcher" where
  "updateVSCodeConfig h key url w =
     (case updateVSCodeConfig_throws h of
        Some t \<Rightarrow> Inl t
      | None \<Rightarrow> Inr (w\<lparr>vscodeConfig := Some (Config key url)\<rparr>))"

definition stopWatching :: "watcher \<Rightarrow> watcher" where
  "stopWatching w =
     (let w1 = (if fileWatcher w then emit [Log LogWatcherStopped] (w\<lparr>fileWatcher := False\<rparr>) else w)
      in if debounceTimer w1 then w1\<lparr>debounceTimer := False\<rparr> else w1)"

definition applyNewConfig :: "host \<Rightarrow> Config \<Rightarrow> watcher \<Rightarrow> watcher" where
  "applyNewConfig h newConfig w =
     (case updateVSCodeConfig h (cfgApiKey newConfig) (cfgApiUrl newConfig) w of
        Inr w1 \<Rightarrow>
          (let w2 = emit [InfoConfigUpdated, Log LogApplied] w1
           in if refreshCallback w2 then emit [RefreshCallback] w2 else w2)
      | Inl (Error m) \<Rightarrow> emit [Log (LogApplyFailed m), ErrorApplyFailed m] w
      | Inl NonError \<Rightarrow> w)"

definition disableWatching :: "host \<Rightarrow> watcher \<Rightarrow> watcher" where
  "disableWatching h w =
     (case setWatchEnabled h False w of
        Inr w1 \<Rightarrow> emit [InfoWatchingDisabled, Log LogWatchingDisabled] (stopWatching w1)
      | Inl (Error m) \<Rightarrow> emit [Log (LogDisableFailed m)] w
      | Inl NonError \<Rightarrow> w)"

definition promptUserChoice :: "host \<Rightarrow> Config \<Rightarrow> Config option \<Rightarrow> watcher \<Rightarrow> watcher" where
  "promptUserChoice h newConfig currentConfig w =
     (let w1 = emit [ChoicePrompt newConfig currentConfig] w;
          choice = userChoice h
      in if choice = Some UseNewConfig then
           applyNewConfig h newConfig (emit [Log LogChoiceUseNew] w1)
         else if choice = None \<or> choice = Some KeepCurrentConfig then
           disableWatching h (emit [Log LogChoiceKeepAndStopWatching] w1)
         else if choice = Some OpenSettings then
           emit [Log LogChoiceOpenSettings, ExecuteOpenSettings] w1
         else w1)"

text \<open>
  The body of the \<open>try\<close> block of \<open>checkAndHandleConfigChange\<close>: the state it leaves, and
  the value it throws, if any. A field of the file counts when it is present and not the
  empty string.
\<close>

definition falsy :: "jsstring option \<Rightarrow> bool" where
  "falsy x = (case x of None \<Rightarrow> True | Some v \<Rightarrow> v = [])"

definition check_body :: "host \<Rightarrow> watcher \<Rightarrow> watcher \<times> thrown option" where
  "check_body h w =
     (let w1 = emit [Log LogCheckStart] w
      in case readClaudeSettings h of
           Inl t \<Rightarrow> (w1, Some t)
         | Inr claudeSettings \<Rightarrow>
             if falsy (csApiKey claudeSettings) \<or> falsy (csApiUrl claudeSettings) then
               (emit [Log LogNoValidConfig] w1, None)
             else
               (let newConfig = Config (the (csApiKey claudeSettings)) (the (csApiUrl claudeSettings));
                    currentConfig = vscodeConfig w1
                in if compareConfigs newConfig currentConfig then
                     (emit [Log LogSameConfig] w1, None)
                   else
                     (promptUserChoice h newConfig currentConfig (emit [Log LogConfigChanged] w1),
                      None)))"

text \<open>
  \<open>checkAndHandleConfigChange\<close>: the body under its \<open>catch\<close>. The second component is the
  value with which the returned promise rejects, \<open>None\<close> when it resolves.
\<close>

definition checkAndHandleConfigChange :: "host \<Rightarrow> watcher \<Rightarrow> watcher \<times> thrown option" where
  "checkAndHandleConfigChange h w =
     (case check_body h w of
        (w1, None) \<Rightarrow> (w1, None)
      | (w1, Some (Error m)) \<Rightarrow> (emit [Log (LogCheckFailed m)] w1, None)
      | (w1, Some NonError) \<Rightarrow> (w1, None))"

section \<open>Vocabulary of the properties\<close>

text \<open>
  Reading a trace of the poller: the delays of its waits, the requests to the key
  endpoint (address and key) and the requests to the statistics endpoint (address and
  identifier), each in the order of the trace.
\<close>

fun waits :: "'p effect list \<Rightarrow> int list" where
  "waits [] = []"
| "waits (Sleep d # es) = d # waits es"
| "waits (e # es) = waits es"

fun resolution_calls :: "'p effect list \<Rightarrow> (jsstring \<times> jsstring) list" where
  "resolution_calls [] = []"
| "resolution_calls (Post u (ApiKeyBody k) # es) = (u, k) # resolution_calls es"
| "resolution_calls (e # es) = resolution_calls es"

fun stats_calls :: "'p effect list \<Rightarrow> (jsstring \<times> jsstring) list" where
  "stats_calls [] = []"
| "stats_calls (Post u (ApiIdBody i) # es) = (u, i) # stats_calls es"
| "stats_calls (e # es) = stats_calls es"

text \<open>
  The schedule of the failed attempts numbered \<open>a\<close> up to \<open>j - 1\<close>: each is a request
  followed by a wait, and the wait after attempt \<open>k\<close> lasts \<open>d * 2 ^ (k - a)\<close>.
\<close>

definition backoff :: "jsstring \<Rightarrow> jsstring \<Rightarrow> int \<Rightarrow> nat \<Rightarrow> nat \<Rightarrow> 'p effect list" where
  "backoff u i d a j =
     concat (map (\<lambda>k. [Post (stats_url u) (ApiIdBody i), Sleep (d * 2 ^ (k - a))]) [a..<j])"

text \<open>
  Inputs for the examples. \<open>example_URL_protocol\<close> is the answer of the platform's URL
  constructor on the addresses used below: a string without a scheme is rejected, and a
  scheme is reported in lower case with its colon. \<open>net_down\<close> is a network on which every
  request times out, \<open>net_second_ok\<close> one on which the second request succeeds, and
  \<open>key_ok\<close> an answer of the key endpoint that carries an identifier.
\<close>

definition example_URL_protocol :: "jsstring \<Rightarrow> jsstring option" where
  "example_URL_protocol u =
     (if u = ascii ''https://x.test'' then Some (ascii ''https:'')
      else if u = ascii ''httpx://relay.example'' then Some (ascii ''httpx:'')
      else None)"

definition key_ok :: "key_body axios_outcome" where
  "key_ok = Resolved 200 (Some (KeyBody True (Some (ascii ''34aff92a-cb42-58ab-56ab-aab15ab9878c''))))"

definition net_down :: "nat \<Rightarrow> unit stats_body axios_outcome" where
  "net_down k = AxiosError None True (ascii ''timeout of 10000ms exceeded'')"

definition net_second_ok :: "nat \<Rightarrow> unit stats_body axios_outcome" where
  "net_second_ok k = (if k = 2 then Resolved 200 (Some (StatsBody True ())) else net_down k)"

text \<open>
  A watcher that is running with a stored configuration, and surroundings in which both
  writes of settings succeed.
\<close>

definition example_watcher :: watcher where
  "example_watcher =
     \<lparr>fileWatcher = True, debounceTimer = False, refreshCallback = True, watchEnabled = True,
      vscodeConfig = Some (Config (ascii ''sk-old'') (ascii ''https://x.test'')), trace = []\<rparr>"

definition example_host :: "thrown + ClaudeSettings \<Rightarrow> choice option \<Rightarrow> host" where
  "example_host file pick =
     \<lparr>readClaudeSettings = file, userChoice = pick, setWatchEnabled_throws = None,
      updateVSCodeConfig_throws = None\<rparr>"

text \<open>
  The inputs and outputs of the percentage: a finite number has a non-negative
  magnitude; a zero is a finite number of magnitude zero, of either sign; a string is in
  range when it is a decimal numeral that denotes a number between 0 and 100.
\<close>

definition finite_number :: "double \<Rightarrow> bool" where
  "finite_number a = (case a of Fin s x \<Rightarrow> 0 \<le> x | _ \<Rightarrow> False)"

definition is_zero :: "double \<Rightarrow> bool" where
  "is_zero a = (case a of Fin s x \<Rightarrow> x = 0 | _ \<Rightarrow> False)"

definition in_range :: "jsstring \<Rightarrow> bool" where
  "in_range s = (case decimal_value s of None \<Rightarrow> False | Some q \<Rightarrow> 0 \<le> q \<and> q \<le> 100)"

section \<open>The retry loop: schedule and final error\<close>

lemma fetchRelayStats_snd [simp]:
  "snd (fetchRelayStats u i out) = [Post (stats_url u) (ApiIdBody i)]"
  by (simp add: fetchRelayStats_def)

lemma backoff_step:
  assumes aj: "a < j"
  shows "backoff u i d a j = [Post (stats_url u) (ApiIdBody i), Sleep d] @ backoff u i (d * 2) (Suc a) j"
proof -
  let ?f = "\<lambda>k. [Post (stats_url u) (ApiIdBody i) :: 'a effect, Sleep (d * 2 ^ (k - a))]"
  let ?g = "\<lambda>k. [Post (stats_url u) (ApiIdBody i) :: 'a effect, Sleep (d * 2 * 2 ^ (k - Suc a))]"
  have 1: "[a..<j] = a # [Suc a..<j]"
    using aj by (simp add: upt_conv_Cons)
  have 2: "map ?f [Suc a..<j] = map ?g [Suc a..<j]"
  proof (rule map_cong)
    fix k assume "k \<in> set [Suc a..<j]"
    then have "a < k" by simp
    then have "(2::int) ^ (k - a) = 2 * 2 ^ (k - Suc a)"
      by (metis Suc_diff_Suc power_Suc)
    then show "?f k = ?g k" by simp
  qed simp
  have "backoff u i d a j = concat (map ?f [a..<j])"
    by (simp only: backoff_def)
  also have "\<dots> = ?f a @ concat (map ?f [Suc a..<j])"
    by (simp only: 1 list.map concat.simps)
  also have "\<dots> = ?f a @ concat (map ?g [Suc a..<j])"
    by (simp only: 2)
  also have "?f a = [Post (stats_url u) (ApiIdBody i), Sleep d]"
    by simp
  also have "concat (map ?g [Suc a..<j]) = backoff u i (d * 2) (Suc a) j"
    by (simp only: backoff_def)
  finally show ?thesis .
qed

lemma backoff_empty [simp]: "backoff u i d a a = []"
  by (simp add: backoff_def)

lemma waits_append [simp]: "waits (xs @ ys) = waits xs @ waits ys"
  by (induction xs rule: waits.induct) simp_all

lemma stats_calls_append [simp]: "stats_calls (xs @ ys) = stats_calls xs @ stats_calls ys"
  by (induction xs rule: stats_calls.induct) simp_all

lemma resolution_calls_append [simp]:
  "resolution_calls (xs @ ys) = resolution_calls xs @ resolution_calls ys"
  by (induction xs rule: resolution_calls.induct) simp_all

lemma waits_backoff: "waits (backoff u i d a j :: 'p effect list) = map (\<lambda>k. d * 2 ^ (k - a)) [a..<j]"
proof -
  have "waits (concat (map (\<lambda>k. [Post (stats_url u) (ApiIdBody i) :: 'p effect, Sleep (d * 2 ^ (k - a))]) ks))
        = map (\<lambda>k. d * 2 ^ (k - a)) ks" for ks
    by (induction ks) simp_all
  then show ?thesis by (simp only: backoff_def)
qed

lemma stats_calls_backoff:
  "stats_calls (backoff u i d a j :: 'p effect list) = replicate (j - a) (stats_url u, i)"
proof -
  have "stats_calls (concat (map (\<lambda>k. [Post (stats_url u) (ApiIdBody i) :: 'p effect, Sleep (d * 2 ^ (k - a))]) ks))
        = replicate (length ks) (stats_url u, i)" for ks
    by (induction ks) simp_all
  from this[of "[a..<j]"] show ?thesis by (simp only: backoff_def length_upt)
qed

lemma retry_loop_failures:
  assumes "a \<le> j" "j \<le> n" "\<forall>k. a \<le> k \<and> k < j \<longrightarrow> isl (fst (fetchRelayStats u i (net k)))"
  shows "retry_loop net u i n a d le tr =
         retry_loop net u i n j (d * 2 ^ (j - a))
           (if a = j then le else Some (projl (fst (fetchRelayStats u i (net (j - 1))))))
           (tr @ backoff u i d a j)"
  using assms
proof (induction "j - a" arbitrary: a d le tr)
  case 0
  then show ?case by simp
next
  case (Suc m)
  then have aj: "a < j" and an: "a < n" by auto
  from Suc.prems aj have "isl (fst (fetchRelayStats u i (net a)))" by auto
  then obtain e where e: "fst (fetchRelayStats u i (net a)) = Inl e"
    by (cases "fst (fetchRelayStats u i (net a))") auto
  then have e': "fetchRelayStats u i (net a) = (Inl e, [Post (stats_url u) (ApiIdBody i)])"
    by (simp add: prod_eq_iff)
  have m: "m = j - Suc a" using Suc.hyps by simp
  have first: "retry_loop net u i n a d le tr =
     retry_loop net u i n (Suc a) (d * 2) (Some e) (tr @ [Post (stats_url u) (ApiIdBody i), Sleep d])"
    by (subst retry_loop.simps) (use an e' in simp)
  have IH: "retry_loop net u i n (Suc a) (d * 2) (Some e) (tr @ [Post (stats_url u) (ApiIdBody i), Sleep d]) =
         retry_loop net u i n j (d * 2 * 2 ^ (j - Suc a))
           (if Suc a = j then Some e else Some (projl (fst (fetchRelayStats u i (net (j - 1))))))
           ((tr @ [Post (stats_url u) (ApiIdBody i), Sleep d]) @ backoff u i (d * 2) (Suc a) j)"
    using Suc.hyps(1)[OF m, of "d * 2" "Some e" "tr @ [Post (stats_url u) (ApiIdBody i), Sleep d]"]
      Suc.prems aj by auto
  have p: "d * 2 * 2 ^ (j - Suc a) = d * 2 ^ (j - a)"
    using aj by (metis Suc_diff_Suc power_Suc mult.assoc)
  have le': "(if Suc a = j then Some e else Some (projl (fst (fetchRelayStats u i (net (j - 1))))))
      = Some (projl (fst (fetchRelayStats u i (net (j - 1)))))"
    using e by auto
  show ?case
    using aj by (simp add: first IH p le' backoff_step[OF aj, of u i d])
qed

lemma retry_all_fail:
  assumes n: "1 \<le> n" and fails: "\<forall>k. 1 \<le> k \<and> k \<le> n \<longrightarrow> isl (fst (fetchRelayStats u i (net k)))"
  shows "fetchRelayStatsWithRetry net u i n d =
           (Inl (retry_message n (Some (projl (fst (fetchRelayStats u i (net n)))))),
            backoff u i d 1 n @ [Post (stats_url u) (ApiIdBody i)])"
proof -
  from fails n have "isl (fst (fetchRelayStats u i (net n)))" by auto
  then obtain e where e: "fst (fetchRelayStats u i (net n)) = Inl e"
    by (cases "fst (fetchRelayStats u i (net n))") auto
  then have e': "fetchRelayStats u i (net n) = (Inl e, [Post (stats_url u) (ApiIdBody i)])"
    by (simp add: prod_eq_iff)
  have "retry_loop net u i n 1 d None [] =
        retry_loop net u i n n (d * 2 ^ (n - 1))
          (if 1 = n then None else Some (projl (fst (fetchRelayStats u i (net (n - 1))))))
          ([] @ backoff u i d 1 n)"
    by (rule retry_loop_failures) (use n fails in auto)
  also have "\<dots> = retry_loop net u i n (n + 1) (d * 2 ^ (n - 1)) (Some e)
          (backoff u i d 1 n @ [Post (stats_url u) (ApiIdBody i)])"
    by (subst retry_loop.simps) (simp add: e')
  also have "\<dots> = (Inl (retry_message n (Some e)), backoff u i d 1 n @ [Post (stats_url u) (ApiIdBody i)])"
    by (subst retry_loop.simps) simp
  finally show ?thesis by (simp add: fetchRelayStatsWithRetry_def e)
qed

lemma retry_first_success:
  assumes j: "1 \<le> j" "j \<le> n" and fails: "\<forall>k. 1 \<le> k \<and> k < j \<longrightarrow> isl (fst (fetchRelayStats u i (net k)))"
    and ok: "fst (fetchRelayStats u i (net j)) = Inr payload"
  shows "fetchRelayStatsWithRetry net u i n d =
           (Inr payload, backoff u i d 1 j @ [Post (stats_url u) (ApiIdBody i)])"
proof -
  have ok': "fetchRelayStats u i (net j) = (Inr payload, [Post (stats_url u) (ApiIdBody i)])"
    by (simp add: prod_eq_iff ok)
  have "retry_loop net u i n 1 d None [] =
        retry_loop net u i n j (d * 2 ^ (j - 1))
          (if 1 = j then None else Some (projl (fst (fetchRelayStats u i (net (j - 1))))))
          ([] @ backoff u i d 1 j)"
    by (rule retry_loop_failures) (use j fails in auto)
  also have "\<dots> = (Inr payload, backoff u i d 1 j @ [Post (stats_url u) (ApiIdBody i)])"
    by (subst retry_loop.simps) (simp add: ok' j)
  finally show ?thesis by (simp add: fetchRelayStatsWithRetry_def)
qed

lemma retry_zero: "fetchRelayStatsWithRetry net u i 0 d = (Inl (retry_message 0 None), [])"
  by (simp add: fetchRelayStatsWithRetry_def retry_loop.simps)

text \<open>
  C1. Let \<open>maxRetries = n \<ge> 1\<close> and the initial delay be \<open>d\<close>. If every attempt fails,
  \<open>fetchRelayStatsWithRetry\<close> makes exactly \<open>n\<close> requests and exactly \<open>n - 1\<close> waits, the
  \<open>k\<close>-th wait lasting \<open>d * 2 ^ (k - 1)\<close> milliseconds: its trace is the schedule of
  \<open>n - 1\<close> failed attempts followed by the last request. If attempt \<open>j\<close> is the first
  to succeed, the function returns the payload of that attempt, and its trace ends with
  the request of attempt \<open>j\<close>: no further request and no further wait.
\<close>

theorem retry_backoff_schedule:
  "(1 \<le> n \<and> (\<forall>k. 1 \<le> k \<and> k \<le> n \<longrightarrow> isl (fst (fetchRelayStats u i (net k)))) \<longrightarrow>
      snd (fetchRelayStatsWithRetry net u i n d) =
        backoff u i d 1 n @ [Post (stats_url u) (ApiIdBody i)] \<and>
      length (stats_calls (snd (fetchRelayStatsWithRetry net u i n d))) = n \<and>
      length (waits (snd (fetchRelayStatsWithRetry net u i n d))) = n - 1 \<and>
      (\<forall>k. 1 \<le> k \<and> k \<le> n - 1 \<longrightarrow>
         waits (snd (fetchRelayStatsWithRetry net u i n d)) ! (k - 1) = d * 2 ^ (k - 1)))
   \<and> (1 \<le> j \<and> j \<le> n \<and> (\<forall>k. 1 \<le> k \<and> k < j \<longrightarrow> isl (fst (fetchRelayStats u i (net k)))) \<and>
      fst (fetchRelayStats u i (net j)) = Inr payload \<longrightarrow>
      fetchRelayStatsWithRetry net u i n d =
        (Inr payload, backoff u i d 1 j @ [Post (stats_url u) (ApiIdBody i)]))"
proof (intro conjI impI)
  assume h: "1 \<le> n \<and> (\<forall>k. 1 \<le> k \<and> k \<le> n \<longrightarrow> isl (fst (fetchRelayStats u i (net k))))"
  then have r: "snd (fetchRelayStatsWithRetry net u i n d) =
      backoff u i d 1 n @ [Post (stats_url u) (ApiIdBody i)]"
    using retry_all_fail[of n u i net d] by simp
  show "snd (fetchRelayStatsWithRetry net u i n d) =
      backoff u i d 1 n @ [Post (stats_url u) (ApiIdBody i)]"
    by (rule r)
  show "length (stats_calls (snd (fetchRelayStatsWithRetry net u i n d))) = n"
    using h by (simp add: r stats_calls_backoff)
  show "length (waits (snd (fetchRelayStatsWithRetry net u i n d))) = n - 1"
    by (simp add: r waits_backoff)
  show "\<forall>k. 1 \<le> k \<and> k \<le> n - 1 \<longrightarrow>
         waits (snd (fetchRelayStatsWithRetry net u i n d)) ! (k - 1) = d * 2 ^ (k - 1)"
  proof (intro allI impI)
    fix k assume k: "1 \<le> k \<and> k \<le> n - 1"
    then have "k - 1 < length [1..<n]" by auto
    then have "map (\<lambda>k. d * 2 ^ (k - 1)) [1..<n] ! (k - 1) = d * 2 ^ ([1..<n] ! (k - 1) - 1)"
      by (rule nth_map)
    moreover have "[1..<n] ! (k - 1) = k" using k by auto
    ultimately show "waits (snd (fetchRelayStatsWithRetry net u i n d)) ! (k - 1) = d * 2 ^ (k - 1)"
      by (simp add: r waits_backoff)
  qed
next
  assume "1 \<le> j \<and> j \<le> n \<and> (\<forall>k. 1 \<le> k \<and> k < j \<longrightarrow> isl (fst (fetchRelayStats u i (net k)))) \<and>
      fst (fetchRelayStats u i (net j)) = Inr payload"
  then show "fetchRelayStatsWithRetry net u i n d =
        (Inr payload, backoff u i d 1 j @ [Post (stats_url u) (ApiIdBody i)])"
    using retry_first_success[of j n u i net payload d] by simp
qed

text \<open>
  C7. When all \<open>maxRetries = n \<ge> 1\<close> attempts fail, \<open>fetchRelayStatsWithRetry\<close> throws an
  error whose message is the fixed text around the decimal digits of \<open>n\<close>, followed by the
  message of the error of the last attempt. Whenever the function throws, every one of
  the \<open>n\<close> attempts has been made and has failed: it never throws while attempts remain.
\<close>

theorem retry_exhausted_error:
  "(1 \<le> n \<and> (\<forall>k. 1 \<le> k \<and> k \<le> n \<longrightarrow> isl (fst (fetchRelayStats u i (net k)))) \<longrightarrow>
      fst (fetchRelayStatsWithRetry net u i n d) =
        Inl (msg_retry_prefix @ digits n @ msg_retry_middle @
             projl (fst (fetchRelayStats u i (net n)))))
   \<and> (isl (fst (fetchRelayStatsWithRetry net u i n d)) \<longrightarrow>
        (\<forall>k. 1 \<le> k \<and> k \<le> n \<longrightarrow> isl (fst (fetchRelayStats u i (net k)))) \<and>
        length (stats_calls (snd (fetchRelayStatsWithRetry net u i n d))) = n)"
proof (intro conjI impI)
  assume "1 \<le> n \<and> (\<forall>k. 1 \<le> k \<and> k \<le> n \<longrightarrow> isl (fst (fetchRelayStats u i (net k))))"
  then show "fst (fetchRelayStatsWithRetry net u i n d) =
        Inl (msg_retry_prefix @ digits n @ msg_retry_middle @
             projl (fst (fetchRelayStats u i (net n))))"
    using retry_all_fail[of n u i net d] by (simp add: retry_message_def)
next
  assume thrown: "isl (fst (fetchRelayStatsWithRetry net u i n d))"
  show all: "\<forall>k. 1 \<le> k \<and> k \<le> n \<longrightarrow> isl (fst (fetchRelayStats u i (net k)))"
  proof (rule ccontr)
    assume "\<not> ?thesis"
    then obtain k where k: "1 \<le> k \<and> k \<le> n \<and> \<not> isl (fst (fetchRelayStats u i (net k)))"
      by blast
    define j where "j = (LEAST k. 1 \<le> k \<and> k \<le> n \<and> \<not> isl (fst (fetchRelayStats u i (net k))))"
    have j: "1 \<le> j \<and> j \<le> n \<and> \<not> isl (fst (fetchRelayStats u i (net j)))"
      unfolding j_def using k by (rule LeastI)
    have before: "\<forall>k. 1 \<le> k \<and> k < j \<longrightarrow> isl (fst (fetchRelayStats u i (net k)))"
    proof (intro allI impI)
      fix k' assume k': "1 \<le> k' \<and> k' < j"
      show "isl (fst (fetchRelayStats u i (net k')))"
      proof (rule ccontr)
        assume "\<not> isl (fst (fetchRelayStats u i (net k')))"
        with k' j have "1 \<le> k' \<and> k' \<le> n \<and> \<not> isl (fst (fetchRelayStats u i (net k')))" by simp
        then have "j \<le> k'" unfolding j_def by (rule Least_le)
        with k' show False by simp
      qed
    qed
    from j obtain p where "fst (fetchRelayStats u i (net j)) = Inr p"
      by (cases "fst (fetchRelayStats u i (net j))") auto
    with j before have "fst (fetchRelayStatsWithRetry net u i n d) = Inr p"
      using retry_first_success[of j n u i net p d] by simp
    with thrown show False by simp
  qed
  show "length (stats_calls (snd (fetchRelayStatsWithRetry net u i n d))) = n"
  proof (cases "n = 0")
    case True
    then show ?thesis by (simp add: retry_zero)
  next
    case False
    then have "1 \<le> n" by simp
    with all show ?thesis
      using retry_all_fail[of n u i net d] by (simp add: stats_calls_backoff)
  qed
qed

text \<open>The schedule at three attempts with an initial delay of one second.\<close>

lemma net_down_fails: "isl (fst (fetchRelayStats u i (net_down k)))"
  by (simp add: fetchRelayStats_def net_down_def)

theorem retry_backoff_schedule_witness:
  "length (stats_calls (snd (fetchRelayStatsWithRetry net_down (ascii ''https://x.test'') (ascii ''id-1'') 3 1000))) = 3
   \<and> length (waits (snd (fetchRelayStatsWithRetry net_down (ascii ''https://x.test'') (ascii ''id-1'') 3 1000))) = 2
   \<and> waits (snd (fetchRelayStatsWithRetry net_down (ascii ''https://x.test'') (ascii ''id-1'') 3 1000)) ! 0 = 1000
   \<and> waits (snd (fetchRelayStatsWithRetry net_down (ascii ''https://x.test'') (ascii ''id-1'') 3 1000)) ! 1 = 2000
   \<and> fetchRelayStatsWithRetry net_second_ok (ascii ''https://x.test'') (ascii ''id-1'') 3 1000 =
       (Inr (StatsBody True ()),
        [Post (stats_url (ascii ''https://x.test'')) (ApiIdBody (ascii ''id-1'')), Sleep 1000,
         Post (stats_url (ascii ''https://x.test'')) (ApiIdBody (ascii ''id-1''))])"
proof -
  let ?u = "ascii ''https://x.test''" and ?i = "ascii ''id-1''"
  have h1: "1 \<le> (3::nat) \<and> (\<forall>k. 1 \<le> k \<and> k \<le> 3 \<longrightarrow> isl (fst (fetchRelayStats ?u ?i (net_down k))))"
    by (simp add: net_down_fails)
  have h2: "1 \<le> (2::nat) \<and> (2::nat) \<le> 3 \<and>
      (\<forall>k. 1 \<le> k \<and> k < 2 \<longrightarrow> isl (fst (fetchRelayStats ?u ?i (net_second_ok k)))) \<and>
      fst (fetchRelayStats ?u ?i (net_second_ok 2)) = Inr (StatsBody True ())"
    by (simp add: fetchRelayStats_def net_second_ok_def net_down_def)
  from retry_backoff_schedule[where n = 3 and u = ?u and i = ?i and net = net_down and d = 1000]
  have a: "length (stats_calls (snd (fetchRelayStatsWithRetry net_down ?u ?i 3 1000))) = 3 \<and>
      length (waits (snd (fetchRelayStatsWithRetry net_down ?u ?i 3 1000))) = 3 - 1 \<and>
      (\<forall>k. 1 \<le> k \<and> k \<le> 3 - 1 \<longrightarrow>
         waits (snd (fetchRelayStatsWithRetry net_down ?u ?i 3 1000)) ! (k - 1) = 1000 * 2 ^ (k - 1))"
    using h1 by blast
  then have every: "\<forall>k. 1 \<le> k \<and> k \<le> 3 - 1 \<longrightarrow>
         waits (snd (fetchRelayStatsWithRetry net_down ?u ?i 3 1000)) ! (k - 1) = 1000 * 2 ^ (k - 1)"
    by blast
  have w1: "waits (snd (fetchRelayStatsWithRetry net_down ?u ?i 3 1000)) ! 0 = 1000"
    using every[rule_format, of 1] by simp
  have w2: "waits (snd (fetchRelayStatsWithRetry net_down ?u ?i 3 1000)) ! 1 = 2000"
    using every[rule_format, of 2] by simp
  from retry_backoff_schedule[where n = 3 and u = ?u and i = ?i and net = net_second_ok and d = 1000
      and j = 2 and payload = "StatsBody True ()"]
  have b: "fetchRelayStatsWithRetry net_second_ok ?u ?i 3 1000 =
      (Inr (StatsBody True ()), backoff ?u ?i 1000 1 2 @ [Post (stats_url ?u) (ApiIdBody ?i)])"
    using h2 by blast
  have bo: "backoff ?u ?i 1000 1 2 = [Post (stats_url ?u) (ApiIdBody ?i) :: unit effect, Sleep 1000]"
  proof -
    have "[1..<2] = [1::nat]" by (simp add: upt_conv_Cons)
    then show ?thesis by (simp add: backoff_def)
  qed
  show ?thesis using a w1 w2 b bo by simp
qed

theorem retry_exhausted_error_witness:
  "fst (fetchRelayStatsWithRetry net_down (ascii ''https://x.test'') (ascii ''id-1'') 3 1000) =
     Inl (msg_retry_prefix @ ascii ''3'' @ msg_retry_middle @ msg_network)
   \<and> length (stats_calls (snd (fetchRelayStatsWithRetry net_down (ascii ''https://x.test'') (ascii ''id-1'') 3 1000))) = 3"
proof -
  let ?u = "ascii ''https://x.test''" and ?i = "ascii ''id-1''"
  have h: "1 \<le> (3::nat) \<and> (\<forall>k. 1 \<le> k \<and> k \<le> 3 \<longrightarrow> isl (fst (fetchRelayStats ?u ?i (net_down k))))"
    by (simp add: net_down_fails)
  have d: "digits 3 = ascii ''3''"
    by (simp add: digits.simps digit_char_def ascii_def)
  have e: "projl (fst (fetchRelayStats ?u ?i (net_down 3))) = msg_network"
    by (simp add: fetchRelayStats_def net_down_def)
  from retry_exhausted_error[where n = 3 and u = ?u and i = ?i and net = net_down and d = 1000]
  have a: "fst (fetchRelayStatsWithRetry net_down ?u ?i 3 1000) =
        Inl (msg_retry_prefix @ digits 3 @ msg_retry_middle @
             projl (fst (fetchRelayStats ?u ?i (net_down 3))))"
    and b: "isl (fst (fetchRelayStatsWithRetry net_down ?u ?i 3 1000)) \<longrightarrow>
        length (stats_calls (snd (fetchRelayStatsWithRetry net_down ?u ?i 3 1000))) = 3"
    using h by blast+
  from a b show ?thesis by (simp add: d e)
qed

section \<open>Validation\<close>

text \<open>
  C3. \<open>validateApiConfig\<close> looks at the address first. With address, identifier and key
  all empty it reports that both are missing; with an empty address and the identifier
  \<open>x\<close> it reports the address. In general, whenever the address is empty or blank the
  result is invalid and the reason is the address, or both when identifier and key are
  missing as well; this holds whatever the URL constructor answers.
\<close>

theorem validateApiConfig_url_first:
  "validateApiConfig P [] [] (Some []) =
     \<lparr>valid = False, message = Some msg_v_both, missingConfig = Some MissingBoth\<rparr>
   \<and> validateApiConfig P [] (ascii ''x'') (Some []) =
     \<lparr>valid = False, message = Some msg_v_url_empty, missingConfig = Some MissingApiUrl\<rparr>
   \<and> (u = [] \<or> trim u = [] \<longrightarrow>
        validateApiConfig P u i k =
          (if (i = [] \<or> trim i = []) \<and> (case k of None \<Rightarrow> True | Some s \<Rightarrow> s = [] \<or> trim s = [])
           then \<lparr>valid = False, message = Some msg_v_both, missingConfig = Some MissingBoth\<rparr>
           else \<lparr>valid = False, message = Some msg_v_url_empty, missingConfig = Some MissingApiUrl\<rparr>))"
proof (intro conjI impI)
  show "validateApiConfig P [] [] (Some []) =
     \<lparr>valid = False, message = Some msg_v_both, missingConfig = Some MissingBoth\<rparr>"
    by (simp add: validateApiConfig_def)
  show "validateApiConfig P [] (ascii ''x'') (Some []) =
     \<lparr>valid = False, message = Some msg_v_url_empty, missingConfig = Some MissingApiUrl\<rparr>"
    by (simp add: validateApiConfig_def ascii_def trim_def isWhiteSpace_def)
  assume "u = [] \<or> trim u = []"
  then show "validateApiConfig P u i k =
          (if (i = [] \<or> trim i = []) \<and> (case k of None \<Rightarrow> True | Some s \<Rightarrow> s = [] \<or> trim s = [])
           then \<lparr>valid = False, message = Some msg_v_both, missingConfig = Some MissingBoth\<rparr>
           else \<lparr>valid = False, message = Some msg_v_url_empty, missingConfig = Some MissingApiUrl\<rparr>)"
    by (simp add: validateApiConfig_def Let_def)
qed

theorem validateApiConfig_url_first_witness:
  "validateApiConfig example_URL_protocol (ascii ''  '') (ascii ''x'') None =
     \<lparr>valid = False, message = Some msg_v_url_empty, missingConfig = Some MissingApiUrl\<rparr>
   \<and> validateApiConfig example_URL_protocol (ascii '' '') (ascii '' '') (Some []) =
     \<lparr>valid = False, message = Some msg_v_both, missingConfig = Some MissingBoth\<rparr>"
proof -
  have b: "trim (ascii ''  '') = []" "trim (ascii '' '') = []" "trim (ascii ''x'') \<noteq> []" "ascii ''x'' \<noteq> []"
    by (simp_all add: ascii_def trim_def isWhiteSpace_def)
  show ?thesis
    using validateApiConfig_url_first[of example_URL_protocol "ascii ''  ''" "ascii ''x''" None]
      validateApiConfig_url_first[of example_URL_protocol "ascii '' ''" "ascii '' ''" "Some []"]
    by (simp add: b)
qed

text \<open>
  C6. For a present address, the result should be valid only if the address parses with
  the scheme \<open>http\<close> or \<open>https\<close>. The test in the source is that the protocol starts
  with \<open>http\<close>, so the address \<open>httpx://relay.example\<close>, which the URL constructor parses
  with the protocol \<open>httpx:\<close>, passes it: with a key and no identifier the configuration
  is reported valid.
\<close>

theorem validateApiConfig_accepts_httpx:
  "P (ascii ''httpx://relay.example'') = Some (ascii ''httpx:'') \<Longrightarrow>
   validateApiConfig P (ascii ''httpx://relay.example'') [] (Some (ascii ''sk-1'')) =
     \<lparr>valid = True, message = None, missingConfig = None\<rparr>"
  by (simp add: validateApiConfig_def ascii_def trim_def isWhiteSpace_def startsWith_def)

theorem validateApiConfig_accepts_httpx_witness:
  "validateApiConfig example_URL_protocol (ascii ''httpx://relay.example'') [] (Some (ascii ''sk-1'')) =
     \<lparr>valid = True, message = None, missingConfig = None\<rparr>"
  using validateApiConfig_accepts_httpx[of example_URL_protocol]
  by (simp add: example_URL_protocol_def ascii_def)

text \<open>
  What the check of the address does guarantee: a present address that does not parse,
  or whose protocol does not start with \<open>http\<close>, is reported as the address at fault.
\<close>

lemma validateApiConfig_url_check:
  assumes "\<not> (u = [] \<or> trim u = [])"
  shows "(P u = None \<longrightarrow> validateApiConfig P u i k =
            \<lparr>valid = False, message = Some msg_v_url_format, missingConfig = Some MissingApiUrl\<rparr>)
       \<and> (\<forall>p. P u = Some p \<and> \<not> startsWith p (ascii ''http'') \<longrightarrow> validateApiConfig P u i k =
            \<lparr>valid = False, message = Some msg_v_url_http, missingConfig = Some MissingApiUrl\<rparr>)
       \<and> (valid (validateApiConfig P u i k) \<longrightarrow> (\<exists>p. P u = Some p \<and> startsWith p (ascii ''http'')))"
  using assms by (auto simp add: validateApiConfig_def Let_def split: option.splits)

section \<open>The refresh cycle: resolving the identifier\<close>

lemma getApiIdFromKey_snd [simp]:
  "snd (getApiIdFromKey u k out) = [Post (key_url u) (ApiKeyBody k)]"
  by (simp add: getApiIdFromKey_def)

lemma retry_loop_calls:
  "resolution_calls (snd (retry_loop net u i n a d le tr)) = resolution_calls tr \<and>
   (\<exists>m. stats_calls (snd (retry_loop net u i n a d le tr)) =
          stats_calls tr @ replicate m (stats_url u, i) \<and> (a \<le> n \<longrightarrow> 0 < m))"
proof (induction net u i n a d le tr rule: retry_loop.induct)
  case (1 net u i n a d le tr)
  obtain r ev where f: "fetchRelayStats u i (net a) = (r, ev)"
    by (cases "fetchRelayStats u i (net a)")
  then have ev: "ev = [Post (stats_url u) (ApiIdBody i)]"
    using fetchRelayStats_snd[of u i "net a"] by simp
  show ?case
  proof (cases "a \<le> n")
    case False
    then have "retry_loop net u i n a d le tr = (Inl (retry_message n le), tr)"
      by (subst retry_loop.simps) simp
    with False show ?thesis by simp
  next
    case True
    show ?thesis
    proof (cases r)
      case (Inr data)
      then have "retry_loop net u i n a d le tr = (Inr data, tr @ ev)"
        using True f by (subst retry_loop.simps) simp
      then have "stats_calls (snd (retry_loop net u i n a d le tr)) =
          stats_calls tr @ replicate 1 (stats_url u, i)"
        and "resolution_calls (snd (retry_loop net u i n a d le tr)) = resolution_calls tr"
        by (simp_all add: ev)
      then show ?thesis by (metis zero_less_one)
    next
      case (Inl err)
      show ?thesis
      proof (cases "a < n")
        case lt: True
        have step: "retry_loop net u i n a d le tr =
            retry_loop net u i n (a + 1) (d * 2) (Some err) (tr @ ev @ [Sleep d])"
          using True f Inl lt by (subst retry_loop.simps) simp
        from "1.IH"(1)[OF True f[symmetric] Inl lt]
        obtain m where
          "resolution_calls (snd (retry_loop net u i n (a + 1) (d * 2) (Some err) (tr @ ev @ [Sleep d])))
             = resolution_calls (tr @ ev @ [Sleep d])"
          "stats_calls (snd (retry_loop net u i n (a + 1) (d * 2) (Some err) (tr @ ev @ [Sleep d])))
             = stats_calls (tr @ ev @ [Sleep d]) @ replicate m (stats_url u, i)"
          by blast
        then have "resolution_calls (snd (retry_loop net u i n a d le tr)) = resolution_calls tr"
          and "stats_calls (snd (retry_loop net u i n a d le tr)) =
             stats_calls tr @ replicate (Suc m) (stats_url u, i)"
          by (simp_all add: step ev)
        then show ?thesis by (metis zero_less_Suc)
      next
        case ge: False
        have step: "retry_loop net u i n a d le tr =
            retry_loop net u i n (a + 1) d (Some err) (tr @ ev)"
          using True f Inl ge by (subst retry_loop.simps) simp
        from "1.IH"(2)[OF True f[symmetric] Inl ge]
        obtain m where
          "resolution_calls (snd (retry_loop net u i n (a + 1) d (Some err) (tr @ ev)))
             = resolution_calls (tr @ ev)"
          "stats_calls (snd (retry_loop net u i n (a + 1) d (Some err) (tr @ ev)))
             = stats_calls (tr @ ev) @ replicate m (stats_url u, i)"
          by blast
        then have "resolution_calls (snd (retry_loop net u i n a d le tr)) = resolution_calls tr"
          and "stats_calls (snd (retry_loop net u i n a d le tr)) =
             stats_calls tr @ replicate (Suc m) (stats_url u, i)"
          by (simp_all add: step ev)
        then show ?thesis by (metis zero_less_Suc)
      qed
    qed
  qed
qed

lemma fetchRelayStatsWithRetry_calls:
  assumes "fetchRelayStatsWithRetry net u i 3 d = (r, tr)"
  shows "resolution_calls tr = []" and "stats_calls tr \<noteq> []"
    and "set (stats_calls tr) = {(stats_url u, i)}"
proof -
  from retry_loop_calls[of net u i 3 1 d None "[]"] assms
  obtain m where m: "resolution_calls tr = []" "stats_calls tr = replicate m (stats_url u, i)" "0 < m"
    by (auto simp: fetchRelayStatsWithRetry_def)
  then show "resolution_calls tr = []" "stats_calls tr \<noteq> []" "set (stats_calls tr) = {(stats_url u, i)}"
    by auto
qed

lemma updateStats_catch_calls [simp]:
  "resolution_calls (updateStats_catch e) = []" "stats_calls (updateStats_catch e) = []"
  by (simp_all add: updateStats_catch_def)

text \<open>
  C4. For every configuration that passes \<open>validateApiConfig\<close> and whose
  identifier is empty or blank (its key is then present), one refresh cycle makes
  exactly one request to the key endpoint, at \<open>{apiUrl}/apiStats/api/get-key-id\<close> with
  the key, and makes it before anything else; when that request returns an identifier,
  statistics are requested, and every request for statistics carries that identifier.
  When the identifier is present, the cycle makes no request to the key endpoint.
\<close>

theorem updateStats_resolves_identifier:
  "(valid (validateApiConfig P (apiUrl c) (apiId c) (Some (apiKey c))) \<and>
    (apiId c = [] \<or> trim (apiId c) = []) \<longrightarrow>
      (\<exists>rest. updateStats P c ko net = Post (key_url (apiUrl c)) (ApiKeyBody (apiKey c)) # rest \<and>
              resolution_calls rest = []) \<and>
      (\<forall>ident. fst (getApiIdFromKey (apiUrl c) (apiKey c) ko :: (jsstring + jsstring) \<times> 'p effect list) = Inr ident \<longrightarrow>
         stats_calls (updateStats P c ko net) \<noteq> [] \<and>
         set (stats_calls (updateStats P c ko net)) = {(stats_url (apiUrl c), ident)}))
   \<and> (\<not> (apiId c = [] \<or> trim (apiId c) = []) \<longrightarrow>
        resolution_calls (updateStats P c ko (net :: nat \<Rightarrow> 'p stats_body axios_outcome)) = [])"
proof (intro conjI impI)
  assume h: "valid (validateApiConfig P (apiUrl c) (apiId c) (Some (apiKey c))) \<and>
    (apiId c = [] \<or> trim (apiId c) = [])"
  then have key: "apiKey c \<noteq> [] \<and> trim (apiKey c) \<noteq> []"
    by (auto simp add: validateApiConfig_def Let_def split: option.splits if_splits)
  obtain r where g: "(getApiIdFromKey (apiUrl c) (apiKey c) ko :: (jsstring + jsstring) \<times> 'p effect list)
      = (r, [Post (key_url (apiUrl c)) (ApiKeyBody (apiKey c))])"
    by (metis getApiIdFromKey_snd prod.collapse)
  show "\<exists>rest. updateStats P c ko net = Post (key_url (apiUrl c)) (ApiKeyBody (apiKey c)) # rest \<and>
              resolution_calls rest = []"
  proof (cases r)
    case (Inl err)
    then show ?thesis using h key g by (simp add: updateStats_def)
  next
    case (Inr ident)
    obtain r2 tr2 where f: "fetchRelayStatsWithRetry net (apiUrl c) ident 3 1000 = (r2, tr2)"
      by (cases "fetchRelayStatsWithRetry net (apiUrl c) ident 3 1000")
    from fetchRelayStatsWithRetry_calls(1)[OF f] show ?thesis
      using h key g Inr f by (cases r2) (simp_all add: updateStats_def)
  qed
  show "\<forall>ident. fst (getApiIdFromKey (apiUrl c) (apiKey c) ko :: (jsstring + jsstring) \<times> 'p effect list) = Inr ident \<longrightarrow>
         stats_calls (updateStats P c ko net) \<noteq> [] \<and>
         set (stats_calls (updateStats P c ko net)) = {(stats_url (apiUrl c), ident)}"
  proof (intro allI impI)
    fix ident
    assume "fst (getApiIdFromKey (apiUrl c) (apiKey c) ko :: (jsstring + jsstring) \<times> 'p effect list) = Inr ident"
    with g have r: "r = Inr ident" by simp
    obtain r2 tr2 where f: "fetchRelayStatsWithRetry net (apiUrl c) ident 3 1000 = (r2, tr2)"
      by (cases "fetchRelayStatsWithRetry net (apiUrl c) ident 3 1000")
    from fetchRelayStatsWithRetry_calls[OF f]
    show "stats_calls (updateStats P c ko net) \<noteq> [] \<and>
         set (stats_calls (updateStats P c ko net)) = {(stats_url (apiUrl c), ident)}"
      using h key g r f by (cases r2) (simp_all add: updateStats_def)
  qed
next
  assume h: "\<not> (apiId c = [] \<or> trim (apiId c) = [])"
  obtain r2 tr2 where f: "fetchRelayStatsWithRetry net (apiUrl c) (apiId c) 3 1000 = (r2, tr2)"
    by (cases "fetchRelayStatsWithRetry net (apiUrl c) (apiId c) 3 1000")
  from fetchRelayStatsWithRetry_calls(1)[OF f]
  show "resolution_calls (updateStats P c ko net) = []"
    using h f by (cases r2) (simp_all add: updateStats_def Let_def)
qed

text \<open>
  An address that is present and not blank but has no scheme does not pass validation:
  with a key and no identifier the cycle ends at the configuration prompt, without any
  request to the key endpoint.
\<close>

theorem updateStats_invalid_url_counterexample:
  "trim (ascii ''relay.example'') \<noteq> []
   \<and> trim (ascii ''sk-1'') \<noteq> []
   \<and> updateStats example_URL_protocol
        \<lparr>apiUrl = ascii ''relay.example'', apiId = [], apiKey = ascii ''sk-1''\<rparr> key_ok net_second_ok
      = [ShowConfigPrompt (Some MissingApiUrl)]
   \<and> resolution_calls (updateStats example_URL_protocol
        \<lparr>apiUrl = ascii ''relay.example'', apiId = [], apiKey = ascii ''sk-1''\<rparr> key_ok net_second_ok)
      = []"
  by (simp add: updateStats_def validateApiConfig_def example_URL_protocol_def ascii_def trim_def
      isWhiteSpace_def)

theorem updateStats_resolves_identifier_witness:
  "(\<exists>rest. updateStats example_URL_protocol
        \<lparr>apiUrl = ascii ''https://x.test'', apiId = [], apiKey = ascii ''sk-1''\<rparr> key_ok net_second_ok
      = Post (key_url (ascii ''https://x.test'')) (ApiKeyBody (ascii ''sk-1'')) # rest \<and>
      resolution_calls rest = [])
   \<and> set (stats_calls (updateStats example_URL_protocol
        \<lparr>apiUrl = ascii ''https://x.test'', apiId = [], apiKey = ascii ''sk-1''\<rparr> key_ok net_second_ok))
      = {(stats_url (ascii ''https://x.test''), ascii ''34aff92a-cb42-58ab-56ab-aab15ab9878c'')}
   \<and> resolution_calls (updateStats example_URL_protocol
        \<lparr>apiUrl = ascii ''https://x.test'', apiId = ascii ''34aff92a-cb42-58ab-56ab-aab15ab9878c'',
         apiKey = ascii ''sk-1''\<rparr> key_ok net_second_ok)
      = []"
proof -
  let ?c = "\<lparr>apiUrl = ascii ''https://x.test'', apiId = [], apiKey = ascii ''sk-1''\<rparr>"
  let ?c' = "\<lparr>apiUrl = ascii ''https://x.test'', apiId = ascii ''34aff92a-cb42-58ab-56ab-aab15ab9878c'',
         apiKey = ascii ''sk-1''\<rparr>"
  have v: "valid (validateApiConfig example_URL_protocol (apiUrl ?c) (apiId ?c) (Some (apiKey ?c))) \<and>
    (apiId ?c = [] \<or> trim (apiId ?c) = [])"
    by (simp add: validateApiConfig_def example_URL_protocol_def ascii_def trim_def
        isWhiteSpace_def startsWith_def)
  have g: "fst (getApiIdFromKey (apiUrl ?c) (apiKey ?c) key_ok :: (jsstring + jsstring) \<times> unit effect list)
      = Inr (ascii ''34aff92a-cb42-58ab-56ab-aab15ab9878c'')"
    by (simp add: getApiIdFromKey_def key_ok_def ascii_def)
  have p: "\<not> (apiId ?c' = [] \<or> trim (apiId ?c') = [])"
    by (simp add: ascii_def trim_def isWhiteSpace_def)
  note t = updateStats_resolves_identifier[where P = example_URL_protocol and c = ?c
      and ko = key_ok and net = net_second_ok]
  note t' = updateStats_resolves_identifier[where P = example_URL_protocol and c = ?c'
      and ko = key_ok and net = net_second_ok]
  from t v have 1: "\<exists>rest. updateStats example_URL_protocol ?c key_ok net_second_ok =
      Post (key_url (apiUrl ?c)) (ApiKeyBody (apiKey ?c)) # rest \<and> resolution_calls rest = []"
    by blast
  from t v g have 2: "set (stats_calls (updateStats example_URL_protocol ?c key_ok net_second_ok)) =
      {(stats_url (apiUrl ?c), ascii ''34aff92a-cb42-58ab-56ab-aab15ab9878c'')}"
    by blast
  from t' p have 3: "resolution_calls (updateStats example_URL_protocol ?c' key_ok net_second_ok) = []"
    by blast
  from 1 2 3 show ?thesis by simp
qed

section \<open>The settings watcher: prompt and check\<close>

lemma emit_emit [simp]: "emit xs (emit ys w) = emit (ys @ xs) w"
  by (simp add: emit_def)

lemma emit_fields [simp]:
  "fileWatcher (emit xs w) = fileWatcher w"
  "debounceTimer (emit xs w) = debounceTimer w"
  "refreshCallback (emit xs w) = refreshCallback w"
  "watchEnabled (emit xs w) = watchEnabled w"
  "vscodeConfig (emit xs w) = vscodeConfig w"
  "trace (emit xs w) = trace w @ xs"
  by (simp_all add: emit_def)

lemma stopWatching_fields [simp]:
  "fileWatcher (stopWatching w) = False"
  "debounceTimer (stopWatching w) = False"
  "watchEnabled (stopWatching w) = watchEnabled w"
  "vscodeConfig (stopWatching w) = vscodeConfig w"
  by (simp_all add: stopWatching_def Let_def)

lemma applyNewConfig_fields [simp]:
  "fileWatcher (applyNewConfig h n w) = fileWatcher w"
  "debounceTimer (applyNewConfig h n w) = debounceTimer w"
  "watchEnabled (applyNewConfig h n w) = watchEnabled w"
  by (simp_all add: applyNewConfig_def updateVSCodeConfig_def Let_def split: option.splits thrown.splits)

lemma disableWatching_config [simp]: "vscodeConfig (disableWatching h w) = vscodeConfig w"
  by (simp add: disableWatching_def setWatchEnabled_def split: option.splits thrown.splits)

lemma disableWatching_done:
  "setWatchEnabled_throws h = None \<Longrightarrow>
     watchEnabled (disableWatching h w) = False \<and> fileWatcher (disableWatching h w) = False \<and>
     debounceTimer (disableWatching h w) = False"
  by (simp add: disableWatching_def setWatchEnabled_def)

text \<open>
  C2. In the prompt, dismissing it and picking \<open>keep current\<close> take the same branch:
  both keep the current configuration, and both disable watching, that is, once the
  write of the flag has succeeded the persisted flag is false, the watcher is stopped
  and its debounce timer cleared. Picking \<open>use new\<close> or \<open>settings\<close> leaves the flag and
  the watcher as they were.
\<close>

theorem promptUserChoice_disables:
  "((userChoice h = None \<or> userChoice h = Some KeepCurrentConfig) \<longrightarrow>
      vscodeConfig (promptUserChoice h n c w) = vscodeConfig w \<and>
      (setWatchEnabled_throws h = None \<longrightarrow>
         watchEnabled (promptUserChoice h n c w) = False \<and>
         fileWatcher (promptUserChoice h n c w) = False \<and>
         debounceTimer (promptUserChoice h n c w) = False))
   \<and> ((userChoice h = Some UseNewConfig \<or> userChoice h = Some OpenSettings) \<longrightarrow>
        watchEnabled (promptUserChoice h n c w) = watchEnabled w \<and>
        fileWatcher (promptUserChoice h n c w) = fileWatcher w \<and>
        debounceTimer (promptUserChoice h n c w) = debounceTimer w)"
  by (auto simp add: promptUserChoice_def Let_def disableWatching_done)

text \<open>
  Picking \<open>keep current\<close> on a running watcher: the flag is cleared and the watcher
  stopped.
\<close>

theorem promptUserChoice_keep_counterexample:
  "watchEnabled example_watcher \<and> fileWatcher example_watcher
   \<and> watchEnabled (promptUserChoice (example_host (Inr (ClaudeSettings (Some (ascii ''sk-new'')) (Some (ascii ''https://x.test'')))) (Some KeepCurrentConfig))
        (Config (ascii ''sk-new'') (ascii ''https://x.test'')) (vscodeConfig example_watcher) example_watcher) = False
   \<and> fileWatcher (promptUserChoice (example_host (Inr (ClaudeSettings (Some (ascii ''sk-new'')) (Some (ascii ''https://x.test'')))) (Some KeepCurrentConfig))
        (Config (ascii ''sk-new'') (ascii ''https://x.test'')) (vscodeConfig example_watcher) example_watcher) = False"
  by (simp add: promptUserChoice_def Let_def disableWatching_def setWatchEnabled_def example_host_def
      example_watcher_def stopWatching_def emit_def)

theorem promptUserChoice_disables_witness:
  "vscodeConfig (promptUserChoice (example_host (Inl NonError) None)
        (Config (ascii ''sk-new'') (ascii ''https://x.test'')) (vscodeConfig example_watcher) example_watcher)
     = Some (Config (ascii ''sk-old'') (ascii ''https://x.test''))
   \<and> watchEnabled (promptUserChoice (example_host (Inl NonError) None)
        (Config (ascii ''sk-new'') (ascii ''https://x.test'')) (vscodeConfig example_watcher) example_watcher) = False
   \<and> fileWatcher (promptUserChoice (example_host (Inl NonError) None)
        (Config (ascii ''sk-new'') (ascii ''https://x.test'')) (vscodeConfig example_watcher) example_watcher) = False
   \<and> watchEnabled (promptUserChoice (example_host (Inl NonError) (Some UseNewConfig))
        (Config (ascii ''sk-new'') (ascii ''https://x.test'')) (vscodeConfig example_watcher) example_watcher) = True
   \<and> fileWatcher (promptUserChoice (example_host (Inl NonError) (Some OpenSettings))
        (Config (ascii ''sk-new'') (ascii ''https://x.test'')) (vscodeConfig example_watcher) example_watcher) = True"
  using promptUserChoice_disables[of "example_host (Inl NonError) None"
      "Config (ascii ''sk-new'') (ascii ''https://x.test'')" "vscodeConfig example_watcher" example_watcher]
    promptUserChoice_disables[of "example_host (Inl NonError) (Some UseNewConfig)"
      "Config (ascii ''sk-new'') (ascii ''https://x.test'')" "vscodeConfig example_watcher" example_watcher]
    promptUserChoice_disables[of "example_host (Inl NonError) (Some OpenSettings)"
      "Config (ascii ''sk-new'') (ascii ''https://x.test'')" "vscodeConfig example_watcher" example_watcher]
  by (simp add: example_host_def example_watcher_def)

text \<open>
  C5. When the key or the address read from the credentials file is absent or empty,
  the check returns having written two log lines and nothing else: no prompt, no write
  of settings, and the watcher, its timer and the flag as before. The comparison with
  the current configuration is reached only when both fields are present and not empty.
\<close>

theorem check_needs_both_fields:
  "(readClaudeSettings h = Inr cs \<and>
      (csApiKey cs = None \<or> csApiKey cs = Some [] \<or> csApiUrl cs = None \<or> csApiUrl cs = Some []) \<longrightarrow>
      checkAndHandleConfigChange h w = (emit [Log LogCheckStart, Log LogNoValidConfig] w, None))
   \<and> ((Log LogSameConfig \<in> set (drop (length (trace w)) (trace (fst (checkAndHandleConfigChange h w)))) \<or>
        Log LogConfigChanged \<in> set (drop (length (trace w)) (trace (fst (checkAndHandleConfigChange h w))))) \<longrightarrow>
       (\<exists>k u. readClaudeSettings h = Inr (ClaudeSettings (Some k) (Some u)) \<and> k \<noteq> [] \<and> u \<noteq> []))"
proof (intro conjI impI)
  assume "readClaudeSettings h = Inr cs \<and>
      (csApiKey cs = None \<or> csApiKey cs = Some [] \<or> csApiUrl cs = None \<or> csApiUrl cs = Some [])"
  then show "checkAndHandleConfigChange h w = (emit [Log LogCheckStart, Log LogNoValidConfig] w, None)"
    by (auto simp add: checkAndHandleConfigChange_def check_body_def Let_def falsy_def)
next
  assume a: "Log LogSameConfig \<in> set (drop (length (trace w)) (trace (fst (checkAndHandleConfigChange h w)))) \<or>
        Log LogConfigChanged \<in> set (drop (length (trace w)) (trace (fst (checkAndHandleConfigChange h w))))"
  show "\<exists>k u. readClaudeSettings h = Inr (ClaudeSettings (Some k) (Some u)) \<and> k \<noteq> [] \<and> u \<noteq> []"
  proof (cases "readClaudeSettings h")
    case (Inl t)
    with a show ?thesis
      by (cases t) (auto simp add: checkAndHandleConfigChange_def check_body_def Let_def)
  next
    case (Inr cs)
    obtain ko uo where cs: "cs = ClaudeSettings ko uo" by (cases cs)
    show ?thesis
    proof (cases "falsy ko \<or> falsy uo")
      case True
      with a Inr cs show ?thesis
        by (auto simp add: checkAndHandleConfigChange_def check_body_def Let_def)
    next
      case False
      then show ?thesis using Inr cs by (auto simp add: falsy_def split: option.splits)
    qed
  qed
qed

text \<open>
  C8. No exception leaves the check. When reading the credentials file throws an error,
  the check resolves; its only effects are the log line of its start and the log line
  of the failure: no message and no prompt is shown, and the watcher, its timer, the
  flag and the stored configuration are as before. A thrown value that is not an
  \<open>Error\<close> is dropped without the second log line.
\<close>

theorem check_absorbs_read_errors:
  "snd (checkAndHandleConfigChange h w) = None
   \<and> (readClaudeSettings h = Inl (Error m) \<longrightarrow>
        fst (checkAndHandleConfigChange h w) = emit [Log LogCheckStart, Log (LogCheckFailed m)] w)
   \<and> (readClaudeSettings h = Inl NonError \<longrightarrow>
        fst (checkAndHandleConfigChange h w) = emit [Log LogCheckStart] w)"
  by (auto simp add: checkAndHandleConfigChange_def check_body_def Let_def
      split: sum.splits thrown.splits option.splits prod.splits)

theorem check_needs_both_fields_witness:
  "checkAndHandleConfigChange (example_host (Inr (ClaudeSettings (Some (ascii ''sk-new'')) (Some []))) None)
      example_watcher
     = (emit [Log LogCheckStart, Log LogNoValidConfig] example_watcher, None)
   \<and> Log LogSameConfig \<in> set (drop (length (trace example_watcher))
        (trace (fst (checkAndHandleConfigChange
           (example_host (Inr (ClaudeSettings (Some (ascii ''sk-old'')) (Some (ascii ''https://x.test'')))) None)
           example_watcher))))
   \<and> (\<exists>k u. readClaudeSettings
          (example_host (Inr (ClaudeSettings (Some (ascii ''sk-old'')) (Some (ascii ''https://x.test'')))) None)
          = Inr (ClaudeSettings (Some k) (Some u)) \<and> k \<noteq> [] \<and> u \<noteq> [])"
proof -
  let ?h = "example_host (Inr (ClaudeSettings (Some (ascii ''sk-new'')) (Some []))) None"
  let ?h' = "example_host (Inr (ClaudeSettings (Some (ascii ''sk-old'')) (Some (ascii ''https://x.test'')))) None"
  have 1: "readClaudeSettings ?h = Inr (ClaudeSettings (Some (ascii ''sk-new'')) (Some []))"
    by (simp add: example_host_def)
  have 2: "Log LogSameConfig \<in> set (drop (length (trace example_watcher))
        (trace (fst (checkAndHandleConfigChange ?h' example_watcher))))"
    by (simp add: checkAndHandleConfigChange_def check_body_def Let_def falsy_def compareConfigs_def
        example_host_def example_watcher_def ascii_def emit_def)
  from check_needs_both_fields[of ?h "ClaudeSettings (Some (ascii ''sk-new'')) (Some [])" example_watcher] 1
  have 3: "checkAndHandleConfigChange ?h example_watcher
     = (emit [Log LogCheckStart, Log LogNoValidConfig] example_watcher, None)"
    by simp
  from check_needs_both_fields[of ?h' _ example_watcher] 2
  have 4: "\<exists>k u. readClaudeSettings ?h' = Inr (ClaudeSettings (Some k) (Some u)) \<and> k \<noteq> [] \<and> u \<noteq> []"
    by blast
  from 2 3 4 show ?thesis by simp
qed

theorem check_absorbs_read_errors_witness:
  "snd (checkAndHandleConfigChange (example_host (Inl (Error (ascii ''ENOENT''))) None) example_watcher) = None
   \<and> fst (checkAndHandleConfigChange (example_host (Inl (Error (ascii ''ENOENT''))) None) example_watcher)
     = emit [Log LogCheckStart, Log (LogCheckFailed (ascii ''ENOENT''))] example_watcher
   \<and> fst (checkAndHandleConfigChange (example_host (Inl NonError) None) example_watcher)
     = emit [Log LogCheckStart] example_watcher"
  using check_absorbs_read_errors[of "example_host (Inl (Error (ascii ''ENOENT''))) None" example_watcher
      "ascii ''ENOENT''"]
    check_absorbs_read_errors[of "example_host (Inl NonError) None" example_watcher]
  by (simp add: example_host_def)

section \<open>The formatter: percentages and the status bar text\<close>

subsection \<open>Logarithms and rounding\<close>

lemma ilog_up_bounds:
  "2 \<le> b \<Longrightarrow> 1 \<le> x \<Longrightarrow> real b ^ ilog_up b x \<le> x \<and> x < real b ^ Suc (ilog_up b x)"
proof (induction b x rule: ilog_up.induct)
  case (1 b x)
  show ?case
  proof (cases "x < real b")
    case True
    then have "ilog_up b x = 0" by (subst ilog_up.simps) simp
    with True "1.prems" show ?thesis by simp
  next
    case False
    with "1.prems" have s: "ilog_up b x = Suc (ilog_up b (x / real b))"
      by (subst ilog_up.simps) simp
    have b: "0 < real b" using "1.prems" by simp
    have "1 \<le> x / real b" using False b by simp
    with "1.IH" "1.prems" False
    have "real b ^ ilog_up b (x / real b) \<le> x / real b \<and> x / real b < real b ^ Suc (ilog_up b (x / real b))"
      by simp
    then show ?thesis using b by (simp add: s field_simps)
  qed
qed

lemma ilog_down_bounds:
  "2 \<le> b \<Longrightarrow> 0 < x \<Longrightarrow> x < 1 \<Longrightarrow>
     1 \<le> x * real b ^ ilog_down b x \<and> x * real b ^ ilog_down b x < real b"
proof (induction b x rule: ilog_down.induct)
  case (1 b x)
  from "1.prems" have s: "ilog_down b x = Suc (ilog_down b (x * real b))"
    by (subst ilog_down.simps) simp
  have b: "0 < real b" using "1.prems" by simp
  show ?case
  proof (cases "1 \<le> x * real b")
    case True
    then have "ilog_down b (x * real b) = 0" by (subst ilog_down.simps) simp
    with True "1.prems" b show ?thesis by (simp add: s)
  next
    case False
    have "0 < x * real b" using "1.prems" b by simp
    with "1.IH" "1.prems" False
    have "1 \<le> x * real b * real b ^ ilog_down b (x * real b) \<and>
          x * real b * real b ^ ilog_down b (x * real b) < real b"
      by simp
    then show ?thesis by (simp add: s mult.assoc)
  qed
qed

lemma floor_log_bounds:
  assumes b: "2 \<le> b" and x: "0 < x"
  shows "real b powi floor_log b x \<le> x" and "x < real b powi (floor_log b x + 1)"
proof -
  have b0: "real b \<noteq> 0" "0 < real b" using b by simp_all
  show "real b powi floor_log b x \<le> x"
  proof (cases "1 \<le> x")
    case True
    with ilog_up_bounds[OF b True] show ?thesis
      by (simp add: floor_log_def power_int_def)
  next
    case False
    then have x1: "x < 1" by simp
    from ilog_down_bounds[OF b x x1] have "1 \<le> x * real b ^ ilog_down b x" by simp
    then have "1 / real b ^ ilog_down b x \<le> x"
      using b0 by (simp add: field_simps)
    moreover have "real b powi (- int (ilog_down b x)) = 1 / real b ^ ilog_down b x"
      by (simp add: power_int_minus field_simps)
    ultimately show ?thesis using False by (simp add: floor_log_def)
  qed
  show "x < real b powi (floor_log b x + 1)"
  proof (cases "1 \<le> x")
    case True
    have "int (ilog_up b x) + 1 = int (Suc (ilog_up b x))" by simp
    with ilog_up_bounds[OF b True] True show ?thesis
      by (simp only: floor_log_def if_True power_int_of_nat)
  next
    case False
    then have x1: "x < 1" by simp
    from ilog_down_bounds[OF b x x1]
    have lt: "x * real b ^ ilog_down b x < real b" by simp
    have "real b powi (- int (ilog_down b x) + 1) = real b powi (- int (ilog_down b x)) * real b"
      using b0 by (intro power_int_add_1) simp
    also have "real b powi (- int (ilog_down b x)) = 1 / real b ^ ilog_down b x"
      by (simp add: power_int_minus field_simps)
    finally have "real b powi (- int (ilog_down b x) + 1) = real b / real b ^ ilog_down b x"
      by simp
    moreover have "x < real b / real b ^ ilog_down b x"
      using lt b0 by (simp add: field_simps)
    ultimately show ?thesis using False by (simp add: floor_log_def)
  qed
qed

lemma floor_log_less:
  assumes "2 \<le> b" "0 < x" "x < real b powi k"
  shows "floor_log b x < k"
proof (rule ccontr)
  assume "\<not> floor_log b x < k"
  then have "k \<le> floor_log b x" by simp
  then have "real b powi k \<le> real b powi floor_log b x"
    using assms(1) by (intro power_int_increasing) auto
  also have "\<dots> \<le> x" using assms by (intro floor_log_bounds)
  finally show False using assms by simp
qed

lemma floor_log_ge:
  assumes "2 \<le> b" "0 < x" "real b powi k \<le> x"
  shows "k \<le> floor_log b x"
proof (rule ccontr)
  assume "\<not> k \<le> floor_log b x"
  then have "floor_log b x + 1 \<le> k" by simp
  then have "real b powi (floor_log b x + 1) \<le> real b powi k"
    using assms(1) by (intro power_int_increasing) auto
  moreover have "x < real b powi (floor_log b x + 1)" using assms by (intro floor_log_bounds)
  ultimately show False using assms by simp
qed

lemma round_half_even_le: "m \<le> of_int M \<Longrightarrow> round_half_even m \<le> M"
  unfolding round_half_even_def Let_def by (auto; linarith)

lemma round_half_even_ge: "of_int M \<le> m \<Longrightarrow> M \<le> round_half_even m"
  unfolding round_half_even_def Let_def by (auto; linarith)

text \<open>
  Rounding stays between two multiples of a power of two that the quantum divides.
\<close>

lemma round_mag_between:
  assumes x: "0 \<le> x"
    and lo: "real L * 2 powi j \<le> x" and hi: "x \<le> real H * 2 powi j"
    and small: "x < 2 powi (j + 53)" and j: "- 1074 \<le> j"
    and fin: "real H * 2 powi j < 2 ^ 1024"
  shows "\<exists>r. round_mag x = Some r \<and> real L * 2 powi j \<le> r \<and> r \<le> real H * 2 powi j"
proof (cases "x = 0")
  case True
  then have "real L * 2 powi j \<le> 0" using lo by simp
  moreover have "0 \<le> real H * 2 powi j" by simp
  ultimately show ?thesis using True by (simp add: round_mag_def)
next
  case False
  then have xp: "0 < x" using x by simp
  define e where "e = max (floor_log 2 x) (- 1022)"
  define q :: real where "q = 2 powi (e - 52)"
  define r where "r = real_of_int (round_half_even (x / q)) * q"
  have "floor_log 2 x < j + 53"
    using floor_log_less[of 2 x "j + 53"] xp small by simp
  then have ej: "e - 52 \<le> j" using j by (simp add: e_def)
  have q0: "0 < q" by (simp add: q_def)
  have split: "2 powi j = (2::real) ^ nat (j - (e - 52)) * q"
  proof -
    have "(2::real) powi j = 2 powi ((j - (e - 52)) + (e - 52))" by simp
    also have "\<dots> = 2 powi (j - (e - 52)) * 2 powi (e - 52)"
      by (rule power_int_add) simp
    also have "2 powi (j - (e - 52)) = (2::real) ^ nat (j - (e - 52))"
      using ej by (simp add: power_int_def)
    finally show ?thesis by (simp add: q_def)
  qed
  define c :: int where "c = 2 ^ nat (j - (e - 52))"
  have cq: "2 powi j = real_of_int c * q" by (simp add: split c_def)
  have "x / q \<le> of_int (int H * c)"
    using hi q0 by (simp add: cq field_simps)
  then have "round_half_even (x / q) \<le> int H * c" by (rule round_half_even_le)
  then have "real_of_int (round_half_even (x / q)) \<le> real_of_int (int H * c)" by linarith
  then have up: "r \<le> real H * 2 powi j"
    using q0 by (simp add: r_def cq mult_right_mono)
  have "of_int (int L * c) \<le> x / q"
    using lo q0 by (simp add: cq field_simps)
  then have "int L * c \<le> round_half_even (x / q)" by (rule round_half_even_ge)
  then have "real_of_int (int L * c) \<le> real_of_int (round_half_even (x / q))" by linarith
  then have low: "real L * 2 powi j \<le> r"
    using q0 by (simp add: r_def cq mult_right_mono)
  have "\<not> 2 ^ 1024 \<le> r" using up fin by linarith
  then have "round_mag x = Some r"
    using False by (simp add: round_mag_def Let_def e_def[symmetric] q_def[symmetric] r_def[symmetric])
  with low up show ?thesis by blast
qed

subsection \<open>Numerals\<close>

lemma isDigit_digit_char: "d < 10 \<Longrightarrow> isDigit (digit_char d)"
  by (simp add: isDigit_def digit_char_def)

lemma digits_all_digits: "list_all isDigit (digits n)"
proof (induction n rule: digits.induct)
  case (1 n)
  show ?case
  proof (cases "n < 10")
    case True
    then show ?thesis by (subst digits.simps) (simp add: isDigit_digit_char)
  next
    case False
    then show ?thesis using 1 by (subst digits.simps) (simp add: isDigit_digit_char)
  qed
qed

lemma digits_value_append:
  "digits_value (xs @ ys) = digits_value xs * 10 ^ length ys + digits_value ys"
proof (induction ys rule: rev_induct)
  case Nil
  then show ?case by (simp add: digits_value_def)
next
  case (snoc y ys)
  have "digits_value (xs @ ys @ [y]) = 10 * digits_value (xs @ ys) + (y - 0x30)"
    by (simp add: digits_value_def)
  also have "\<dots> = 10 * (digits_value xs * 10 ^ length ys + digits_value ys) + (y - 0x30)"
    by (simp only: snoc.IH)
  also have "\<dots> = digits_value xs * 10 ^ length (ys @ [y]) + (10 * digits_value ys + (y - 0x30))"
    by (simp add: algebra_simps)
  also have "10 * digits_value ys + (y - 0x30) = digits_value (ys @ [y])"
    by (simp add: digits_value_def)
  finally show ?case by simp
qed

lemma digits_value_single: "digits_value [digit_char d] = d"
  by (simp add: digits_value_def digit_char_def)

lemma digits_value_digits: "digits_value (digits n) = n"
proof (induction n rule: digits.induct)
  case (1 n)
  show ?case
  proof (cases "n < 10")
    case True
    then show ?thesis by (subst digits.simps) (simp add: digits_value_single)
  next
    case False
    then have "digits_value (digits n) = digits_value (digits (n div 10)) * 10 + n mod 10"
      by (subst digits.simps) (simp add: digits_value_append digits_value_single)
    with False 1 show ?thesis by simp
  qed
qed

lemma digits_value_zeros: "digits_value (replicate k 0x30 @ xs) = digits_value xs"
proof (induction k)
  case 0
  then show ?case by simp
next
  case (Suc k)
  have "digits_value (0x30 # ys) = digits_value ys" for ys
    by (simp add: digits_value_def)
  with Suc show ?case by simp
qed

lemma digit_not_point: "isDigit c \<Longrightarrow> c \<noteq> 0x2E"
  by (auto simp add: isDigit_def)

lemma digit_not_minus: "isDigit c \<Longrightarrow> c \<noteq> 0x2D"
  by (auto simp add: isDigit_def)

lemma takeWhile_digits:
  "list_all isDigit a \<Longrightarrow> takeWhile (\<lambda>c. c \<noteq> 0x2E) (a @ 0x2E # b) = a"
  by (induction a) (auto simp add: digit_not_point)

lemma dropWhile_digits:
  "list_all isDigit a \<Longrightarrow> dropWhile (\<lambda>c. c \<noteq> 0x2E) (a @ 0x2E # b) = 0x2E # b"
  by (induction a) (auto simp add: digit_not_point)

lemma takeWhile_digits_only:
  "list_all isDigit a \<Longrightarrow> takeWhile (\<lambda>c. c \<noteq> 0x2E) a = a"
  by (induction a) (auto simp add: digit_not_point)

lemma dropWhile_digits_only:
  "list_all isDigit a \<Longrightarrow> dropWhile (\<lambda>c. c \<noteq> 0x2E) a = []"
  by (induction a) (auto simp add: digit_not_point)

lemma ascii_minus: "ascii ''-'' = [0x2D]" by (simp add: ascii_def)
lemma ascii_point: "ascii ''.'' = [0x2E]" by (simp add: ascii_def)

lemma not_minus_first:
  assumes "a \<noteq> []" "list_all isDigit a"
  shows "take 1 (a @ r) \<noteq> ascii ''-''"
  using assms by (cases a) (auto simp add: ascii_minus digit_not_minus)

lemma unsigned_value_digits:
  assumes "a \<noteq> []" "list_all isDigit a"
  shows "unsigned_value a = Some (real (digits_value a))"
  using assms by (simp add: unsigned_value_def Let_def takeWhile_digits_only dropWhile_digits_only)

lemma unsigned_value_fraction:
  assumes "a \<noteq> []" "list_all isDigit a" "b \<noteq> []" "list_all isDigit b"
  shows "unsigned_value (a @ 0x2E # b) =
     Some (real (digits_value a) + real (digits_value b) / 10 ^ length b)"
  using assms by (simp add: unsigned_value_def Let_def takeWhile_digits dropWhile_digits)

lemma zeros_all_digits: "list_all isDigit (replicate k 0x30)"
  by (induction k) (simp_all add: isDigit_def)

lemma digits_value_zeros_only: "digits_value (replicate k 0x30) = 0"
  using digits_value_zeros[of k "[]"] by (simp add: digits_value_def)

lemma digits_value_less: "list_all isDigit xs \<Longrightarrow> digits_value xs < 10 ^ length xs"
proof (induction xs rule: rev_induct)
  case Nil
  then show ?case by (simp add: digits_value_def)
next
  case (snoc y ys)
  then have y: "y - 0x30 \<le> 9" and ys: "digits_value ys + 1 \<le> 10 ^ length ys"
    by (auto simp add: isDigit_def)
  have "digits_value (ys @ [y]) = digits_value ys * 10 + (y - 0x30)"
    by (simp add: digits_value_def)
  also have "\<dots> < (digits_value ys + 1) * 10" using y by simp
  also have "\<dots> \<le> 10 ^ length ys * 10" using ys by (intro mult_right_mono) simp_all
  finally show ?case by simp
qed

text \<open>The digits of a positive number without the zeros at their end.\<close>

lemma strip_zeros_shape:
  "\<exists>z. xs = rev (dropWhile (\<lambda>c. c = 0x30) (rev xs)) @ replicate z (0x30::nat)"
proof (induction xs rule: rev_induct)
  case Nil
  then show ?case by simp
next
  case (snoc y ys)
  show ?case
  proof (cases "y = 0x30")
    case True
    from snoc obtain z where z: "ys = rev (dropWhile (\<lambda>c. c = 0x30) (rev ys)) @ replicate z 0x30"
      by blast
    have "ys @ [y] = rev (dropWhile (\<lambda>c. c = 0x30) (rev ys)) @ replicate (Suc z) 0x30"
      using True z by (metis append.assoc replicate_Suc replicate_append_same)
    moreover have "rev (dropWhile (\<lambda>c. c = 0x30) (rev (ys @ [y]))) = rev (dropWhile (\<lambda>c. c = 0x30) (rev ys))"
      using True by simp
    ultimately have "ys @ [y] = rev (dropWhile (\<lambda>c. c = 0x30) (rev (ys @ [y]))) @ replicate (Suc z) 0x30"
      by (simp only:)
    then show ?thesis by (rule exI)
  next
    case False
    then show ?thesis by (intro exI[of _ 0]) simp
  qed
qed

lemma print_decimal_value:
  assumes S: "1 \<le> S" and n: "- 6 < int (length (digits S)) + E" "int (length (digits S)) + E \<le> 21"
  shows "decimal_value (print_decimal S E) = Some (real S * 10 powi E)"
proof -
  define ds where "ds = rev (dropWhile (\<lambda>c. c = 0x30) (rev (digits S)))"
  obtain z where z: "digits S = ds @ replicate z 0x30"
    using strip_zeros_shape[of "digits S"] by (auto simp add: ds_def)
  define k where "k = length ds"
  define n where "n = int (length (digits S)) + E"
  have len: "int (length (digits S)) = int k + int z" by (simp add: z k_def)
  have all: "list_all isDigit ds"
    using digits_all_digits[of S] by (simp add: z)
  have Sv: "S = digits_value ds * 10 ^ z"
    using digits_value_digits[of S] by (simp add: z digits_value_append digits_value_zeros_only)
  have ne: "ds \<noteq> []"
  proof
    assume "ds = []"
    then have "S = 0" using Sv by (simp add: digits_value_def)
    with S show False by simp
  qed
  have k0: "0 < k" using ne by (simp add: k_def)
  have zE: "int z + E = n - int k" by (simp add: n_def len)
  have D: "real S * 10 powi E = real (digits_value ds) * 10 powi (n - int k)"
  proof -
    have "real S * 10 powi E = real (digits_value ds) * (10 powi int z * 10 powi E)"
      by (simp add: Sv)
    also have "10 powi int z * 10 powi E = (10::real) powi (int z + E)"
      by (rule power_int_add[symmetric]) simp
    finally show ?thesis by (simp add: zE)
  qed
  consider (int) "int k \<le> n" | (mid) "0 < n" "n < int k" | (small) "n \<le> 0"
    by linarith
  then show ?thesis
  proof cases
    case int
    define out where "out = ds @ replicate (nat (n - int k)) 0x30"
    have p: "print_decimal S E = out"
      using int assms(3) by (simp add: print_decimal_def Let_def ds_def[symmetric] k_def n_def out_def)
    have "list_all isDigit out" "out \<noteq> []"
      using all ne by (simp_all add: out_def zeros_all_digits)
    moreover have "take 1 out \<noteq> ascii ''-''"
      unfolding out_def using ne all by (rule not_minus_first)
    ultimately have "decimal_value out = Some (real (digits_value out))"
      by (simp add: decimal_value_def unsigned_value_digits)
    moreover have "digits_value out = digits_value ds * 10 ^ nat (n - int k)"
      by (simp add: out_def digits_value_append digits_value_zeros_only)
    moreover have "(10::real) powi (n - int k) = 10 ^ nat (n - int k)"
      using int by (simp add: power_int_def)
    ultimately show ?thesis by (simp add: p D)
  next
    case mid
    define a where "a = take (nat n) ds"
    define b where "b = drop (nat n) ds"
    have p: "print_decimal S E = a @ 0x2E # b"
      using mid assms(3)
      by (simp add: print_decimal_def Let_def ds_def[symmetric] k_def n_def a_def b_def ascii_point)
    have ab: "a @ b = ds" by (simp add: a_def b_def)
    have lb: "length b = nat (int k - n)" using mid by (simp add: b_def k_def)
    have a: "a \<noteq> []" "list_all isDigit a" and b: "b \<noteq> []" "list_all isDigit b"
      using mid all ne
      by (auto simp add: a_def b_def k_def list_all_iff dest: in_set_takeD in_set_dropD)
    have nm: "take 1 (a @ 0x2E # b) \<noteq> ascii ''-''"
      using a by (rule not_minus_first)
    have "decimal_value (a @ 0x2E # b) =
        Some (real (digits_value a) + real (digits_value b) / 10 ^ length b)"
      using nm a b by (simp add: decimal_value_def unsigned_value_fraction)
    moreover have "real (digits_value ds) = real (digits_value a) * 10 ^ length b + real (digits_value b)"
      using digits_value_append[of a b] by (simp add: ab)
    moreover have "(10::real) powi (n - int k) = 1 / 10 ^ length b"
    proof -
      have "n - int k = - int (length b)" using mid by (simp add: lb)
      then show ?thesis by (simp only: power_int_minus power_int_of_nat) (simp add: field_simps)
    qed
    ultimately show ?thesis by (simp add: p D field_simps)
  next
    case small
    define b where "b = replicate (nat (- n)) 0x30 @ ds"
    have p: "print_decimal S E = [0x30] @ 0x2E # b"
      using small assms(2) k0
      by (simp add: print_decimal_def Let_def ds_def[symmetric] k_def[symmetric] n_def[symmetric] b_def ascii_def)
    have b: "b \<noteq> []" "list_all isDigit b"
      using all ne by (simp_all add: b_def zeros_all_digits)
    have z: "[0x30::nat] \<noteq> []" "list_all isDigit [0x30]" by (simp_all add: isDigit_def)
    have nm: "take 1 ([0x30] @ 0x2E # b) \<noteq> ascii ''-''"
      using z by (rule not_minus_first)
    have "unsigned_value ([0x30] @ 0x2E # b) =
        Some (real (digits_value [0x30]) + real (digits_value b) / 10 ^ length b)"
      using z b by (rule unsigned_value_fraction)
    with nm have "decimal_value ([0x30] @ 0x2E # b) =
        Some (real (digits_value [0x30]) + real (digits_value b) / 10 ^ length b)"
      by (simp only: decimal_value_def if_False)
    moreover have "digits_value [0x30] = 0" by (simp add: digits_value_def)
    moreover have "digits_value b = digits_value ds" by (simp add: b_def digits_value_zeros)
    moreover have "length b = nat (int k - n)" using small by (simp add: b_def k_def)
    moreover have "(10::real) powi (n - int k) = 1 / 10 ^ nat (int k - n)"
    proof -
      have "n - int k = - int (nat (int k - n))" using small by simp
      then show ?thesis by (simp only: power_int_minus power_int_of_nat) (simp add: field_simps)
    qed
    ultimately show ?thesis by (simp add: p D)
  qed
qed

subsection \<open>The shortest decimal of a number\<close>

lemma digits_length_lower: "1 \<le> S \<Longrightarrow> 10 ^ (length (digits S) - 1) \<le> S"
proof (induction S rule: digits.induct)
  case (1 n)
  show ?case
  proof (cases "n < 10")
    case True
    then have "digits n = [digit_char n]" by (subst digits.simps) simp
    with "1.prems" show ?thesis by simp
  next
    case False
    then have d: "digits n = digits (n div 10) @ [digit_char (n mod 10)]"
      by (subst digits.simps) simp
    have "digits (n div 10) \<noteq> []" by (subst digits.simps) simp
    then obtain m where m: "length (digits (n div 10)) = Suc m"
      by (cases "digits (n div 10)") simp_all
    have "1 \<le> n div 10" using False by simp
    with "1.IH" False have "10 ^ m \<le> n div 10" by (simp add: m)
    then have "10 * 10 ^ m \<le> 10 * (n div 10)" by simp
    also have "\<dots> \<le> n" by simp
    finally show ?thesis by (simp add: d m)
  qed
qed

lemma digits_length_upper: "S < 10 ^ length (digits S)"
  using digits_value_less[OF digits_all_digits, of S] by (simp add: digits_value_digits)

text \<open>A decimal between a thousandth and a hundred is written in full.\<close>

lemma point_position:
  assumes S: "1 \<le> S" and lo: "10 powi (- 3) \<le> real S * 10 powi E" and hi: "real S * 10 powi E \<le> 100"
  shows "- 6 < int (length (digits S)) + E" and "int (length (digits S)) + E \<le> 21"
proof -
  define l where "l = length (digits S)"
  have "digits S \<noteq> []" by (subst digits.simps) simp
  then have l: "1 \<le> l" unfolding l_def by (cases "digits S") simp_all
  have p: "0 < (10::real) powi E" by simp
  have "real S < real (10 ^ l)" using digits_length_upper[of S] unfolding l_def by linarith
  then have "real S * 10 powi E < 10 ^ l * 10 powi E" using p by simp
  also have "\<dots> = 10 powi (int l + E)"
    by (simp add: power_int_add)
  finally have up: "real S * 10 powi E < 10 powi (int l + E)" .
  have "real (10 ^ (l - 1)) \<le> real S" using digits_length_lower[OF S] unfolding l_def by linarith
  then have "(10::real) ^ (l - 1) \<le> real S" by simp
  then have "10 ^ (l - 1) * 10 powi E \<le> real S * 10 powi E"
    using p by (intro mult_right_mono) simp_all
  moreover have "(10::real) ^ (l - 1) * 10 powi E = 10 powi (int l - 1 + E)"
  proof -
    have "(10::real) ^ (l - 1) = 10 powi (int l - 1)" using l by (simp add: power_int_def nat_diff_distrib)
    then show ?thesis by (simp add: power_int_add)
  qed
  ultimately have low: "10 powi (int l - 1 + E) \<le> real S * 10 powi E" by (simp only:)
  show "- 6 < int (length (digits S)) + E"
  proof (rule ccontr)
    assume "\<not> ?thesis"
    then have "int l + E \<le> - 3" by (simp add: l_def)
    then have "(10::real) powi (int l + E) \<le> 10 powi (- 3)"
      by (intro power_int_increasing) auto
    with up lo show False by linarith
  qed
  show "int (length (digits S)) + E \<le> 21"
  proof (rule ccontr)
    assume "\<not> ?thesis"
    then have "3 \<le> int l - 1 + E" by (simp add: l_def)
    then have "(10::real) powi 3 \<le> 10 powi (int l - 1 + E)"
      by (intro power_int_increasing) auto
    with low hi show False by simp
  qed
qed

lemma round_mag_exact:
  assumes "x = real N * 2 powi j" "x < 2 powi (j + 53)" "- 1074 \<le> j" "x < 2 ^ 1024"
  shows "round_mag x = Some x"
proof -
  have "0 \<le> x" using assms(1) by simp
  from round_mag_between[OF this, of N j N] assms
  obtain r where "round_mag x = Some r" "x \<le> r" "r \<le> x" by auto
  then show ?thesis by simp
qed

lemma round_mag_100: "round_mag 100 = Some 100"
  by (rule round_mag_exact[of 100 25 2]) simp_all

lemma round_mag_10000: "round_mag 10000 = Some 10000"
  by (rule round_mag_exact[of 10000 625 4]) simp_all

text \<open>
  The decimal chosen for a number between a thousandth and a hundred lies between the
  power of ten below the number and a hundred.
\<close>

lemma shortest_in_bounds:
  assumes x: "0 < x" "x \<le> 100"
    and n: "10 powi (n - 1) \<le> x" "n \<le> 3"
    and ks: "\<forall>k\<in>set ks. 1 \<le> k"
  shows "1 \<le> fst (shortest_in x n ks) \<and>
         real (fst (shortest_in x n ks)) * 10 powi snd (shortest_in x n ks) \<le> 100 \<and>
         10 powi (n - 1) \<le> real (fst (shortest_in x n ks)) * 10 powi snd (shortest_in x n ks)"
proof -
  have cand: "1 \<le> nat \<lfloor>x / 10 powi (n - int k)\<rfloor> \<and>
      real (nat \<lfloor>x / 10 powi (n - int k)\<rfloor>) * 10 powi (n - int k) \<le> x \<and>
      10 powi (n - 1) \<le> real (nat \<lfloor>x / 10 powi (n - int k)\<rfloor>) * 10 powi (n - int k)"
    if k: "1 \<le> k" for k :: nat
  proof -
    define E where "E = n - int k"
    have p: "0 < (10::real) powi E" by simp
    have "(10::real) powi (n - 1) = 10 powi (int k - 1) * 10 powi E"
      unfolding E_def by (subst power_int_add[symmetric]) simp_all
    moreover have "(10::real) powi (int k - 1) = 10 ^ (k - 1)"
      using k by (simp add: power_int_def nat_diff_distrib)
    ultimately have split: "(10::real) powi (n - 1) = 10 ^ (k - 1) * 10 powi E" by simp
    have "real_of_int (10 ^ (k - 1)) \<le> x / 10 powi E"
      using n(1) p by (simp add: split field_simps)
    then have fl: "10 ^ (k - 1) \<le> \<lfloor>x / 10 powi E\<rfloor>" by (simp only: le_floor_iff)
    moreover have "(1::int) \<le> 10 ^ (k - 1)" by (rule one_le_power) simp
    ultimately have pos: "1 \<le> \<lfloor>x / 10 powi E\<rfloor>" by (rule order_trans[rotated])
    have "real_of_int \<lfloor>x / 10 powi E\<rfloor> \<le> x / 10 powi E" by (rule of_int_floor_le)
    then have le: "real_of_int \<lfloor>x / 10 powi E\<rfloor> * 10 powi E \<le> x"
      by (simp only: pos_le_divide_eq[OF p])
    have "real_of_int (10 ^ (k - 1)) \<le> real_of_int \<lfloor>x / 10 powi E\<rfloor>" using fl by linarith
    then have ge: "10 powi (n - 1) \<le> real_of_int \<lfloor>x / 10 powi E\<rfloor> * 10 powi E"
      using p by (simp add: split)
    have nonneg: "0 \<le> \<lfloor>x / 10 powi E\<rfloor>" using pos by linarith
    then have r: "real (nat \<lfloor>x / 10 powi E\<rfloor>) = real_of_int \<lfloor>x / 10 powi E\<rfloor>"
      by (rule of_nat_nat)
    have "1 \<le> nat \<lfloor>x / 10 powi E\<rfloor>" using pos by linarith
    with le ge show ?thesis unfolding E_def[symmetric] by (simp only: r simp_thms)
  qed
  have next_cand: "real (nat \<lfloor>x / 10 powi (n - int k)\<rfloor> + 1) * 10 powi (n - int k) \<le> 100"
    if k: "1 \<le> k" and lt: "x < 100" for k :: nat
  proof -
    define E where "E = n - int k"
    have p: "0 < (10::real) powi E" by simp
    have E2: "E \<le> 2" using k n(2) by (simp add: E_def)
    have "(100::real) = 10 powi 2" by simp
    also have "\<dots> = 10 powi (2 - E) * 10 powi E"
      by (subst power_int_add[symmetric]) simp_all
    also have "(10::real) powi (2 - E) = 10 ^ nat (2 - E)" using E2 by (simp add: power_int_def)
    finally have split: "(100::real) = 10 ^ nat (2 - E) * 10 powi E" .
    have "x < 10 ^ nat (2 - E) * 10 powi E" using lt by (simp only: split[symmetric])
    then have "x / 10 powi E < 10 ^ nat (2 - E)" by (simp only: pos_divide_less_eq[OF p])
    then have "x / 10 powi E < real_of_int (10 ^ nat (2 - E))" by simp
    then have "\<lfloor>x / 10 powi E\<rfloor> < 10 ^ nat (2 - E)" by (simp only: floor_less_iff)
    moreover have "0 \<le> \<lfloor>x / 10 powi E\<rfloor>" using x by simp
    ultimately have "int (nat \<lfloor>x / 10 powi E\<rfloor> + 1) \<le> 10 ^ nat (2 - E)" by simp
    then have "real (nat \<lfloor>x / 10 powi E\<rfloor> + 1) \<le> 10 ^ nat (2 - E)"
      by (metis of_int_le_iff of_int_of_nat_eq of_int_numeral of_int_power)
    then have "real (nat \<lfloor>x / 10 powi E\<rfloor> + 1) * 10 powi E \<le> 10 ^ nat (2 - E) * 10 powi E"
      using p by simp
    then show ?thesis unfolding E_def[symmetric] by (simp only: split[symmetric])
  qed
  have top: "0 < nat \<lfloor>x / 10 powi (n - int k)\<rfloor> \<and>
      round_mag (real (nat \<lfloor>x / 10 powi (n - int k)\<rfloor>) * 10 powi (n - int k)) = Some x \<and>
      x - real (nat \<lfloor>x / 10 powi (n - int k)\<rfloor>) * 10 powi (n - int k)
        < real (nat \<lfloor>x / 10 powi (n - int k)\<rfloor> + 1) * 10 powi (n - int k) - x"
    if k: "1 \<le> k" and eq: "x = 100" for k :: nat
  proof -
    define E where "E = n - int k"
    have p: "0 < (10::real) powi E" by simp
    have E2: "E \<le> 2" using k n(2) by (simp add: E_def)
    have "(100::real) = 10 powi 2" by simp
    also have "\<dots> = 10 powi (2 - E) * 10 powi E"
      by (subst power_int_add[symmetric]) simp_all
    also have "(10::real) powi (2 - E) = 10 ^ nat (2 - E)" using E2 by (simp add: power_int_def)
    finally have split: "(100::real) = 10 ^ nat (2 - E) * 10 powi E" .
    have "x = 10 ^ nat (2 - E) * 10 powi E" by (simp only: eq split[symmetric])
    then have "x / 10 powi E = 10 ^ nat (2 - E)" using p by (simp only: nonzero_eq_divide_eq) simp
    then have "x / 10 powi E = real_of_int (10 ^ nat (2 - E))" by simp
    then have "\<lfloor>x / 10 powi E\<rfloor> = 10 ^ nat (2 - E)" by (simp only: floor_of_int)
    then have lo: "real (nat \<lfloor>x / 10 powi E\<rfloor>) = 10 ^ nat (2 - E)" "0 < nat \<lfloor>x / 10 powi E\<rfloor>"
      by simp_all
    have "real (nat \<lfloor>x / 10 powi E\<rfloor>) * 10 powi E = 10 ^ nat (2 - E) * 10 powi E"
      by (simp only: lo(1))
    also have "\<dots> = 100" by (simp only: split[symmetric])
    finally have D: "real (nat \<lfloor>x / 10 powi E\<rfloor>) * 10 powi E = x" by (simp only: eq)
    have "real (nat \<lfloor>x / 10 powi E\<rfloor> + 1) * 10 powi E
        = real (nat \<lfloor>x / 10 powi E\<rfloor>) * 10 powi E + 10 powi E"
      by (simp add: algebra_simps)
    then have D': "real (nat \<lfloor>x / 10 powi E\<rfloor> + 1) * 10 powi E = x + 10 powi E"
      by (simp only: D)
    have r: "round_mag x = Some x" by (simp only: eq round_mag_100)
    have "x - x < x + 10 powi E - x" using p by simp
    with lo(2) r show ?thesis unfolding E_def[symmetric] by (simp only: D D' simp_thms)
  qed
  show ?thesis using ks
  proof (induction ks)
    case Nil
    from cand[of 17] x(2) show ?case by simp
  next
    case (Cons k ks)
    then have k: "1 \<le> k" by simp
    show ?case
    proof (cases "x = 100")
      case True
      from top[OF k True] have "shortest_in x n (k # ks) =
          (nat \<lfloor>x / 10 powi (n - int k)\<rfloor>, n - int k)"
        by (simp add: Let_def)
      with cand[OF k] x show ?thesis by simp
    next
      case False
      then have lt: "x < 100" using x by simp
      have hi: "10 powi (n - 1) \<le> real (nat \<lfloor>x / 10 powi (n - int k)\<rfloor> + 1) * 10 powi (n - int k)"
      proof -
        have "real (nat \<lfloor>x / 10 powi (n - int k)\<rfloor>) * 10 powi (n - int k)
            \<le> real (nat \<lfloor>x / 10 powi (n - int k)\<rfloor> + 1) * 10 powi (n - int k)"
          by (intro mult_right_mono) simp_all
        with cand[OF k] show ?thesis by linarith
      qed
      from cand[OF k] next_cand[OF k lt] hi x Cons show ?thesis
        by (simp add: Let_def)
    qed
  qed
qed

lemma toString_range:
  assumes x: "2 powi (- 7) \<le> x" "x \<le> 100"
  shows "\<exists>q. decimal_value (f64_toString (Fin False x)) = Some q \<and> 0 \<le> q \<and> q \<le> 100"
proof -
  have "0 < (2::real) powi (- 7)" by simp
  then have xp: "0 < x" using x(1) by (rule less_le_trans)
  define n where "n = floor_log 10 x + 1"
  have lo: "10 powi (n - 1) \<le> x"
    using floor_log_bounds(1)[of 10 x] xp by (simp add: n_def)
  have "x < 10 powi 3" using x by simp
  then have "floor_log 10 x < 3" using floor_log_less[of 10 x 3] xp by simp
  then have n3: "n \<le> 3" by (simp add: n_def)
  have "(10::real) powi (- 3) \<le> 2 powi (- 7)" by (simp add: power_int_minus)
  then have "real 10 powi (- 3) \<le> x" using x by simp
  then have "- 3 \<le> floor_log 10 x" using xp by (intro floor_log_ge) simp_all
  then have "- 3 \<le> n - 1" by (simp add: n_def)
  then have thousandth: "(10::real) powi (- 3) \<le> 10 powi (n - 1)"
    by (intro power_int_increasing) auto
  obtain S E where SE: "shortest x = (S, E)" by (cases "shortest x")
  have "1 \<le> fst (shortest x) \<and> real (fst (shortest x)) * 10 powi snd (shortest x) \<le> 100 \<and>
      10 powi (n - 1) \<le> real (fst (shortest x)) * 10 powi snd (shortest x)"
    unfolding shortest_def n_def[symmetric]
    using xp x(2) lo n3 by (intro shortest_in_bounds) simp_all
  then have S: "1 \<le> S" and hi: "real S * 10 powi E \<le> 100" and low: "10 powi (n - 1) \<le> real S * 10 powi E"
    by (simp_all add: SE)
  have low3: "10 powi (- 3) \<le> real S * 10 powi E" using thousandth low by linarith
  have "decimal_value (print_decimal S E) = Some (real S * 10 powi E)"
    using S point_position[OF S low3 hi] by (intro print_decimal_value)
  moreover have "f64_toString (Fin False x) = print_decimal S E"
    using xp by (simp add: f64_toString_def SE)
  moreover have "0 \<le> real S * 10 powi E" by simp
  ultimately show ?thesis using hi by simp
qed

subsection \<open>The arithmetic of the percentage\<close>

lemma round_mag_nonneg:
  assumes "0 \<le> x" "round_mag x = Some r"
  shows "0 \<le> r"
proof (cases "x = 0")
  case True
  with assms show ?thesis by (simp add: round_mag_def)
next
  case False
  define q :: real where "q = 2 powi (max (floor_log 2 x) (- 1022) - 52)"
  have q: "0 < q" by (simp add: q_def)
  have "r = of_int (round_half_even (x / q)) * q"
    using assms(2) False by (simp add: round_mag_def Let_def q_def split: if_splits)
  moreover have "0 \<le> round_half_even (x / q)"
    using assms(1) q by (intro round_half_even_ge) simp
  ultimately show ?thesis using q by simp
qed

lemma mk_shape:
  assumes "0 \<le> x"
  shows "(\<exists>r. mk s x = Fin s r \<and> 0 \<le> r) \<or> mk s x = Infty s"
proof (cases "round_mag x")
  case None
  then show ?thesis by (simp add: mk_def)
next
  case (Some r)
  with round_mag_nonneg[OF assms Some] show ?thesis by (simp add: mk_def)
qed

lemma mk_between:
  assumes "0 \<le> x" "real L * 2 powi j \<le> x" "x \<le> real H * 2 powi j" "x < 2 powi (j + 53)"
    "- 1074 \<le> j" "real H * 2 powi j < 2 ^ 1024"
  shows "\<exists>r. mk s x = Fin s r \<and> real L * 2 powi j \<le> r \<and> r \<le> real H * 2 powi j"
  using round_mag_between[OF assms] by (auto simp add: mk_def)

lemma f64_lit_0: "f64_lit 0 = Fin False 0"
  by (simp add: f64_lit_def mk_def round_mag_def)

lemma f64_lit_100: "f64_lit 100 = Fin False 100"
  by (simp add: f64_lit_def mk_def round_mag_100)

lemma f64_lit_10000: "f64_lit 10000 = Fin False 10000"
  by (simp add: f64_lit_def mk_def round_mag_10000)

lemma strictEq_zero: "f64_strictEq t (Fin False 0) = is_zero t"
  by (cases t) (auto simp add: f64_strictEq_def is_zero_def)

text \<open>The quotient in percent of two finite numbers is a number, finite or infinite.\<close>

lemma percentage_shape:
  assumes "0 \<le> x" "0 \<le> y" "y \<noteq> 0"
  shows "(\<exists>u r. f64_mul (f64_div (Fin s x) (Fin t y)) (Fin False 100) = Fin u r \<and> 0 \<le> r)
       \<or> (\<exists>u. f64_mul (f64_div (Fin s x) (Fin t y)) (Fin False 100) = Infty u)"
proof -
  have d: "f64_div (Fin s x) (Fin t y) = mk (s \<noteq> t) (x / y)"
    using assms by (simp add: f64_div_def)
  have "0 \<le> x / y" using assms by simp
  from mk_shape[OF this, of "s \<noteq> t"] show ?thesis
  proof
    assume "\<exists>r. mk (s \<noteq> t) (x / y) = Fin (s \<noteq> t) r \<and> 0 \<le> r"
    then obtain r where r: "mk (s \<noteq> t) (x / y) = Fin (s \<noteq> t) r" "0 \<le> r" by blast
    have m: "f64_mul (Fin (s \<noteq> t) r) (Fin False 100) = mk ((s \<noteq> t) \<noteq> False) (r * 100)"
      by (simp add: f64_mul_def)
    have "0 \<le> r * 100" using r(2) by simp
    from mk_shape[OF this, of "(s \<noteq> t) \<noteq> False"] show ?thesis
      unfolding d r(1) m by blast
  next
    assume "mk (s \<noteq> t) (x / y) = Infty (s \<noteq> t)"
    then show ?thesis unfolding d by (simp add: f64_mul_def)
  qed
qed

text \<open>Clamping a number gives a finite number between 0 and 100 with the positive sign.\<close>

lemma clamp_finite:
  assumes "0 \<le> r"
  shows "\<exists>c. f64_max (Fin False 0) (f64_min (Fin False 100) (Fin u r)) = Fin False c \<and> 0 \<le> c \<and> c \<le> 100"
  using assms by (cases u) (auto simp add: f64_max_def f64_min_def f64_less_def Let_def)

lemma clamp_infinite:
  "\<exists>c. f64_max (Fin False 0) (f64_min (Fin False 100) (Infty u)) = Fin False c \<and> 0 \<le> c \<and> c \<le> 100"
  by (cases u) (auto simp add: f64_max_def f64_min_def f64_less_def Let_def)

text \<open>Rounding the clamped number to two places.\<close>

lemma rounded_shape:
  assumes "0 \<le> c" "c \<le> 100"
  shows "\<exists>r. f64_div (f64_round (f64_mul (Fin False c) (Fin False 100))) (Fin False 100) = Fin False r
           \<and> 0 \<le> r \<and> r \<le> 100"
proof -
  have m: "f64_mul (Fin False c) (Fin False 100) = mk False (c * 100)"
    by (simp add: f64_mul_def)
  have "\<exists>r. mk False (c * 100) = Fin False r \<and> real 0 * 2 powi 4 \<le> r \<and> r \<le> real 625 * 2 powi 4"
    using assms by (intro mk_between) simp_all
  then obtain r1 where r1: "mk False (c * 100) = Fin False r1" "0 \<le> r1" "r1 \<le> 10000" by auto
  define k where "k = \<lfloor>r1 + 1 / 2\<rfloor>"
  have k: "0 \<le> k" "k \<le> 10000" using r1(2,3) unfolding k_def by linarith+
  have rd: "f64_round (Fin False r1) = Fin False (of_int k)"
    using k(1) by (auto simp add: f64_round_def Let_def k_def[symmetric])
  have dv: "f64_div (Fin False (of_int k)) (Fin False 100) = mk False (of_int k / 100)"
    by (simp add: f64_div_def)
  have "\<exists>r. mk False (of_int k / 100) = Fin False r \<and> real 0 * 2 powi 2 \<le> r \<and> r \<le> real 25 * 2 powi 2"
    using k by (intro mk_between) simp_all
  then obtain r2 where "mk False (of_int k / 100) = Fin False r2" "0 \<le> r2" "r2 \<le> 100" by auto
  then show ?thesis unfolding m r1(1) rd dv by blast
qed

lemma toFixed_2_shape:
  assumes "0 \<le> x" "x \<le> 100"
  shows "\<exists>a b. f64_toFixed (Fin False x) 2 = a @ 0x2E # b \<and> a \<noteq> [] \<and> list_all isDigit a \<and>
           list_all isDigit b \<and> length b = 2 \<and>
           digits_value a * 100 + digits_value b \<le> 10000"
proof -
  define n where "n = nat \<lfloor>x * 10 ^ 2 + 1 / 2\<rfloor>"
  define m where "m = replicate (Suc 2 - length (digits n)) 0x30 @ digits n"
  define a where "a = take (length m - 2) m"
  define b where "b = drop (length m - 2) m"
  have len: "Suc 2 \<le> length m" by (simp add: m_def)
  have all: "list_all isDigit m"
    using digits_all_digits zeros_all_digits by (simp add: m_def)
  have ab: "a @ b = m" unfolding a_def b_def by (rule append_take_drop_id)
  have val: "digits_value m = n" by (simp add: m_def digits_value_zeros digits_value_digits)
  have lb: "length b = 2" using len by (simp add: b_def)
  have la: "a \<noteq> []" using len by (auto simp add: a_def)
  have da: "list_all isDigit a" and db: "list_all isDigit b"
    using all by (auto simp add: a_def b_def list_all_iff dest: in_set_takeD in_set_dropD)
  have "digits_value a * 10 ^ length b + digits_value b = digits_value (a @ b)"
    by (simp only: digits_value_append)
  then have v: "digits_value a * 100 + digits_value b = n"
    by (simp add: lb ab val)
  have "\<not> 10 ^ 21 \<le> x" using assms(2) by simp
  then have tf: "f64_toFixed (Fin False x) 2 = a @ 0x2E # b"
    by (simp add: f64_toFixed_def Let_def ascii_point a_def b_def m_def n_def)
  have "x * 10 ^ 2 + 1 / 2 < of_int 10001" using assms(2) by simp
  then have "\<lfloor>x * 10 ^ 2 + 1 / 2\<rfloor> < 10001" by (simp only: floor_less_iff)
  then have "n \<le> 10000" unfolding n_def by linarith
  with tf la da db lb v show ?thesis by metis
qed

lemma Number_fraction:
  assumes a: "a \<noteq> []" "list_all isDigit a" and b: "b \<noteq> []" "list_all isDigit b"
  shows "f64_Number (a @ 0x2E # b) = mk False (real (digits_value a) + real (digits_value b) / 10 ^ length b)"
proof -
  obtain c cs where c: "a = c # cs" using a(1) by (cases a) auto
  then have cd: "isDigit c" using a(2) by simp
  have ne: "c \<noteq> 0x49" "c \<noteq> 0x2D" using cd by (auto simp add: isDigit_def)
  have n1: "a @ 0x2E # b \<noteq> ascii ''Infinity''" using ne by (simp add: c ascii_def)
  have n2: "a @ 0x2E # b \<noteq> ascii ''-Infinity''" using ne by (simp add: c ascii_def)
  have n3: "take 1 (a @ 0x2E # b) \<noteq> ascii ''-''" using ne by (simp add: c ascii_def)
  have "\<forall>x\<in>set (a @ 0x2E # b). x \<noteq> 0x65"
    using a(2) b(2) by (auto simp add: list_all_iff isDigit_def)
  then have tw: "takeWhile (\<lambda>c. c \<noteq> 0x65) (a @ 0x2E # b) = a @ 0x2E # b"
    and dw: "dropWhile (\<lambda>c. c \<noteq> 0x65) (a @ 0x2E # b) = []"
    by (simp_all only: takeWhile_eq_all_conv dropWhile_eq_Nil_conv)
  show ?thesis
    unfolding f64_Number_def Let_def
    by (simp only: n1 n2 n3 if_False tw dw unsigned_value_fraction[OF a b] option.case simp_thms if_True)
qed

text \<open>The string of a number between 0 and 100 that has two decimal places.\<close>

lemma toString_Number_toFixed_range:
  assumes "0 \<le> x" "x \<le> 100"
  shows "in_range (f64_toString (f64_Number (f64_toFixed (Fin False x) 2)))"
proof -
  from toFixed_2_shape[OF assms]
  obtain a b where ab: "f64_toFixed (Fin False x) 2 = a @ 0x2E # b" "a \<noteq> []" "list_all isDigit a"
    "list_all isDigit b" "length b = 2" "digits_value a * 100 + digits_value b \<le> 10000"
    by blast
  define n where "n = digits_value a * 100 + digits_value b"
  have bn: "b \<noteq> []" using ab(5) by auto
  have v: "real (digits_value a) + real (digits_value b) / 10 ^ length b = real n / 100"
    by (simp add: ab(5) n_def field_simps)
  have N: "f64_Number (f64_toFixed (Fin False x) 2) = mk False (real n / 100)"
    unfolding ab(1) Number_fraction[OF ab(2) ab(3) bn ab(4)] v ..
  have n: "n \<le> 10000" using ab(6) by (simp add: n_def)
  show ?thesis
  proof (cases "n = 0")
    case True
    then have "f64_Number (f64_toFixed (Fin False x) 2) = Fin False 0"
      unfolding N by (simp add: mk_def round_mag_def)
    then show ?thesis
      by (simp add: f64_toString_def in_range_def decimal_value_def unsigned_value_def
          ascii_def isDigit_def digits_value_def)
  next
    case False
    then have "1 \<le> real n" by simp
    then have "real 1 * 2 powi (- 7) \<le> real n / 100" by (simp add: power_int_minus field_simps)
    moreover have "real n / 100 \<le> real 12800 * 2 powi (- 7)"
      using n by (simp add: power_int_minus field_simps)
    moreover have "real n / 100 < 2 powi (- 7 + 53)" 
    proof -
      have "real n / 100 \<le> 100" using n by simp
      also have "(100::real) < 2 powi 46" by simp
      finally show ?thesis by simp
    qed
    moreover have "real 12800 * 2 powi (- 7) < (2::real) ^ 1024" by (simp add: power_int_minus)
    ultimately have "\<exists>r. mk False (real n / 100) = Fin False r \<and> real 1 * 2 powi (- 7) \<le> r \<and>
        r \<le> real 12800 * 2 powi (- 7)"
      by (intro mk_between) simp_all
    then obtain r where r: "mk False (real n / 100) = Fin False r" "2 powi (- 7) \<le> r" "r \<le> 100"
      by (auto simp add: power_int_minus)
    from toString_range[OF r(2) r(3)] show ?thesis
      unfolding N r(1) by (auto simp add: in_range_def)
  qed
qed

lemma formatPercentage_finite:
  assumes "0 \<le> x" "0 \<le> y" "y \<noteq> 0"
  shows "in_range (formatPercentage binary64 (Fin s x) (Fin t y))"
proof -
  let ?p = "f64_mul (f64_div (Fin s x) (Fin t y)) (Fin False 100)"
  have "\<exists>c. f64_max (Fin False 0) (f64_min (Fin False 100) ?p) = Fin False c \<and> 0 \<le> c \<and> c \<le> 100"
    using percentage_shape[OF assms, of s t] clamp_finite clamp_infinite by metis
  then obtain c where c: "f64_max (Fin False 0) (f64_min (Fin False 100) ?p) = Fin False c"
    "0 \<le> c" "c \<le> 100" by blast
  from rounded_shape[OF c(2,3)] obtain r where
    r: "f64_div (f64_round (f64_mul (Fin False c) (Fin False 100))) (Fin False 100) = Fin False r"
    "0 \<le> r" "r \<le> 100" by blast
  have nz: "\<not> is_zero (Fin t y)" using assms(3) by (simp add: is_zero_def)
  have "formatPercentage binary64 (Fin s x) (Fin t y) =
      f64_toString (f64_Number (f64_toFixed (Fin False r) 2))"
    by (simp add: formatPercentage_def binary64_def Let_def f64_lit_0 f64_lit_100 strictEq_zero nz c(1) r(1))
  with toString_Number_toFixed_range[OF r(2,3)] show ?thesis by simp
qed

text \<open>
  The numbers that are not finite are outside the property: a value or a total that is
  NaN gives the string \<open>NaN\<close>, unless the total is a zero.
\<close>

lemma Number_NaN: "f64_Number (ascii ''NaN'') = NaN"
  by (simp add: f64_Number_def ascii_def unsigned_value_def isDigit_def Let_def)

lemma formatPercentage_NaN_value:
  "\<not> is_zero t \<Longrightarrow> formatPercentage binary64 NaN t = ascii ''NaN''"
  by (simp add: formatPercentage_def binary64_def Let_def f64_lit_0 f64_lit_100 strictEq_zero
      f64_div_def f64_mul_def f64_min_def f64_max_def f64_round_def f64_toFixed_def
      f64_toString_def Number_NaN)

lemma formatPercentage_NaN_total:
  "formatPercentage binary64 v NaN = ascii ''NaN''"
proof -
  have "f64_div v NaN = NaN" by (cases v) (simp_all add: f64_div_def)
  moreover have "f64_div NaN (Fin False 100) = NaN" by (simp add: f64_div_def)
  ultimately show ?thesis
    by (simp add: formatPercentage_def binary64_def Let_def f64_lit_0 f64_lit_100 strictEq_zero
      is_zero_def f64_mul_def f64_min_def f64_max_def f64_round_def f64_toFixed_def
      f64_toString_def Number_NaN)
qed

text \<open>
  C9. \<open>formatPercentage\<close> on the numbers of the platform. For every finite value and
  every finite total, of either sign: if the total is a zero (of either sign) the result
  is the string \<open>0\<close>, since the division is guarded; otherwise the result is a decimal
  numeral, and the number it denotes lies between 0 and 100, also when the value is
  negative or exceeds the total, when the quotient overflows, and with every rounding
  of the five arithmetic operations and the two conversions on the way.
\<close>

theorem formatPercentage_range:
  assumes "finite_number v" and "finite_number t"
  shows "if is_zero t then formatPercentage binary64 v t = ascii ''0''
         else (\<exists>q. decimal_value (formatPercentage binary64 v t) = Some q \<and> 0 \<le> q \<and> q \<le> 100)"
proof -
  obtain s x where v: "v = Fin s x" "0 \<le> x"
    using assms(1) by (cases v) (auto simp add: finite_number_def)
  obtain u y where t: "t = Fin u y" "0 \<le> y"
    using assms(2) by (cases t) (auto simp add: finite_number_def)
  show ?thesis
  proof (cases "y = 0")
    case True
    then show ?thesis
      by (simp add: t is_zero_def formatPercentage_def binary64_def f64_lit_0 strictEq_zero)
  next
    case False
    from formatPercentage_finite[OF v(2) t(2) False, of s u]
    have "\<exists>q. decimal_value (formatPercentage binary64 v t) = Some q \<and> 0 \<le> q \<and> q \<le> 100"
      by (auto simp add: v t in_range_def split: option.splits)
    with False show ?thesis by (simp add: t is_zero_def)
  qed
qed

theorem formatPercentage_range_witness:
  "finite_number (Fin True 23) \<and> finite_number (Fin False 160) \<and> finite_number (Fin True 0)
   \<and> formatPercentage binary64 (Fin True 23) (Fin True 0) = ascii ''0''
   \<and> (\<exists>q. decimal_value (formatPercentage binary64 (Fin True 23) (Fin False 160)) = Some q
          \<and> 0 \<le> q \<and> q \<le> 100)"
  using formatPercentage_range [of "Fin True 23" "Fin True 0"]
    formatPercentage_range [of "Fin True 23" "Fin False 160"]
  by (simp add: finite_number_def is_zero_def)

text \<open>
  C10. The text of \<open>formatStatusBarText\<close> does not depend on its optional percentage
  argument: any two arguments, given or omitted, produce the same text. The text is the
  cost of \<open>used\<close>, a slash, the cost of \<open>limit\<close>, a space, the percentage that
  \<open>formatPercentage\<close> computes from \<open>used\<close> and \<open>limit\<close>, and a percent sign. This holds on
  every platform, so in particular on binary64.
\<close>

theorem formatStatusBarText_ignores_percentage:
  "formatStatusBarText P used limit p1 = formatStatusBarText P used limit p2 \<and>
   formatStatusBarText P used limit p =
     formatCost P used @ ascii ''/'' @ formatCost P limit @ ascii '' '' @
     formatPercentage P used limit @ ascii ''%''"
  by (simp add: formatStatusBarText_def Let_def)

end
